theory Spec2Isabelle
  imports Complex_Main "HOL-Library.Word"
begin

section \<open>JavaScript strings\<close>

text \<open>
  A JavaScript string is a sequence of UTF-16 code units. The program's own literals are
  written through \<open>js\<close> where they are ASCII, and as code units where they are Cyrillic.
\<close>

type_synonym jsstring = "16 word list"

definition js :: "string \<Rightarrow> jsstring" where
  "js s = map (\<lambda>c. of_nat (of_char c)) s"

text \<open>
  \<open>String.prototype.trim\<close> removes the code units of ECMAScript's WhiteSpace and
  LineTerminator productions from both ends.
\<close>

definition is_space :: "16 word \<Rightarrow> bool" where
  "is_space c = (c \<in> set [0x9, 0xA, 0xB, 0xC, 0xD, 0x20, 0xA0, 0x1680, 0x2000, 0x2001, 0x2002,
      0x2003, 0x2004, 0x2005, 0x2006, 0x2007, 0x2008, 0x2009, 0x200A, 0x2028, 0x2029, 0x202F,
      0x205F, 0x3000, 0xFEFF])"

definition js_trim :: "jsstring \<Rightarrow> jsstring" where
  "js_trim s = rev (dropWhile is_space (rev (dropWhile is_space s)))"

fun starts_with :: "jsstring \<Rightarrow> jsstring \<Rightarrow> bool" where
  "starts_with s [] = True"
| "starts_with [] (p # ps) = False"
| "starts_with (c # cs) (p # ps) = (c = p \<and> starts_with cs ps)"

text \<open>\<open>s.includes(pat)\<close>: the pattern occurs somewhere in \<open>s\<close>.\<close>

fun js_includes :: "jsstring \<Rightarrow> jsstring \<Rightarrow> bool" where
  "js_includes [] pat = (pat = [])"
| "js_includes (c # cs) pat = (starts_with (c # cs) pat \<or> js_includes cs pat)"

text \<open>
  \<open>chunk.split("\n\n")\<close>: the pieces between the non-overlapping occurrences of two line
  feeds, found from the left; a string without the separator is its own single piece.
\<close>

fun js_split_nn :: "jsstring \<Rightarrow> jsstring list" where
  "js_split_nn [] = [[]]"
| "js_split_nn [c] = [[c]]"
| "js_split_nn (a # b # cs) =
     (if a = 0xA \<and> b = 0xA then [] # js_split_nn cs
      else (case js_split_nn (b # cs) of
              [] \<Rightarrow> [[a]]
            | piece # pieces \<Rightarrow> (a # piece) # pieces))"

text \<open>\<open>line.replace(/^data: /, "")\<close>: one leading marker is removed, if there is one.\<close>

definition strip_data :: "jsstring \<Rightarrow> jsstring" where
  "strip_data line = (if starts_with line (js ''data: '') then drop 6 line else line)"

text \<open>The decimal text of a status code, as a template literal renders a number.\<close>

function dec :: "nat \<Rightarrow> jsstring" where
  "dec n = (if n < 10 then [of_nat (48 + n)] else dec (n div 10) @ [of_nat (48 + n mod 10)])"
  by pat_completeness auto
termination
  by (relation "measure (\<lambda>n. n)") auto

section \<open>JavaScript values\<close>

text \<open>
  The values that \<open>JSON.parse\<close> and \<open>response.json()\<close> produce, and \<open>undefined\<close> for what a
  property read gives when the property is absent. A number is held as the text that
  \<open>ToString\<close> gives for it: the program only tests a number for truthiness and turns it
  into text, and \<open>ToString\<close> gives \<open>0\<close> for both zeros. An object is the list of its
  properties in source order; a repeated key takes its last value, as \<open>JSON.parse\<close> does.
\<close>

datatype jsval =
    JUndefined
  | JNull
  | JBool bool
  | JNum jsstring
  | JStr jsstring
  | JArr "jsval list"
  | JObj "(jsstring \<times> jsval) list"

fun truthy :: "jsval \<Rightarrow> bool" where
  "truthy JUndefined = False"
| "truthy JNull = False"
| "truthy (JBool b) = b"
| "truthy (JNum n) = (n \<noteq> js ''0'' \<and> n \<noteq> js ''NaN'')"
| "truthy (JStr s) = (s \<noteq> [])"
| "truthy (JArr xs) = True"
| "truthy (JObj kvs) = True"

fun join_comma :: "jsstring list \<Rightarrow> jsstring" where
  "join_comma [] = []"
| "join_comma [s] = s"
| "join_comma (s # t # ss) = s @ js '','' @ join_comma (t # ss)"

text \<open>The own property \<open>k\<close> of a parsed object.\<close>

definition own_property :: "(jsstring \<times> jsval) list \<Rightarrow> jsstring \<Rightarrow> jsval option" where
  "own_property kvs k = map_of (rev kvs) k"

text \<open>
  An exception carries a name and a message; what the platform throws (a rejected fetch,
  read or parse) is an \<open>Error\<close> object as well.
\<close>

datatype exn = Exn (exn_name: jsstring) (exn_message: jsstring)

definition Error :: "jsstring \<Rightarrow> exn" where
  "Error msg = Exn (js ''Error'') msg"

text \<open>The TypeError of a conversion that finds no usable method (V8's wording).\<close>

definition ConversionError :: exn where
  "ConversionError = Exn (js ''TypeError'') (js ''Cannot convert object to primitive value'')"

text \<open>
  \<open>ToString\<close>, as string concatenation, \<open>new Error(v)\<close> and a computed property key apply
  it. An array converts through \<open>join\<close>, which gives no text for \<open>null\<close> and \<open>undefined\<close>
  elements. An object converts through the inherited \<open>toString\<close>, unless it has a member
  \<open>toString\<close> of its own: a parsed value is never a function, the inherited \<open>valueOf\<close>
  returns the object itself, and the conversion throws a TypeError.
\<close>

fun to_string :: "jsval \<Rightarrow> exn + jsstring"
  and elements_text :: "jsval list \<Rightarrow> exn + jsstring list" where
  "to_string JUndefined = Inr (js ''undefined'')"
| "to_string JNull = Inr (js ''null'')"
| "to_string (JBool b) = Inr (if b then js ''true'' else js ''false'')"
| "to_string (JNum n) = Inr n"
| "to_string (JStr s) = Inr s"
| "to_string (JArr xs) =
     (case elements_text xs of Inl e \<Rightarrow> Inl e | Inr ss \<Rightarrow> Inr (join_comma ss))"
| "to_string (JObj kvs) =
     (if own_property kvs (js ''toString'') = None then Inr (js ''[object Object]'')
      else Inl ConversionError)"
| "elements_text [] = Inr []"
| "elements_text (x # xs) =
     (case (if x = JUndefined \<or> x = JNull then Inr [] else to_string x) of
        Inl e \<Rightarrow> Inl e
      | Inr s \<Rightarrow> (case elements_text xs of Inl e \<Rightarrow> Inl e | Inr ss \<Rightarrow> Inr (s # ss)))"

text \<open>
  What \<open>throw new Error(v)\<close> throws: the error whose message is the text of \<open>v\<close> (no
  message when \<open>v\<close> is \<open>undefined\<close>), or the TypeError of the conversion.
\<close>

definition new_Error :: "jsval \<Rightarrow> exn" where
  "new_Error v =
     (if v = JUndefined then Error []
      else (case to_string v of Inl e \<Rightarrow> e | Inr msg \<Rightarrow> Error msg))"

text \<open>
  Reading a property of \<open>null\<close> or \<open>undefined\<close> raises a TypeError; the wording of its
  message is the engine's (V8's is taken here).
\<close>

definition TypeError :: "jsval \<Rightarrow> jsstring \<Rightarrow> exn" where
  "TypeError v k =
     Exn (js ''TypeError'')
       (js ''Cannot read properties of '' @ (if v = JNull then js ''null'' else js ''undefined'')
          @ js '' (reading '' @ [0x27] @ k @ [0x27] @ js '')'')"

text \<open>
  A property read \<open>v.k\<close> or \<open>v[0]\<close>, for the names this program reads (\<open>error\<close>,
  \<open>content\<close>, \<open>type\<close>, \<open>value\<close>, \<open>choices\<close>, \<open>message\<close>, \<open>role\<close>, \<open>messages\<close>,
  \<open>model\<close> and the index \<open>0\<close>): none of them is a property of a built-in prototype, so
  an object has them only as its own, an array and a string have only the index.
\<close>

fun get_prop :: "jsval \<Rightarrow> jsstring \<Rightarrow> exn + jsval" where
  "get_prop JUndefined k = Inl (TypeError JUndefined k)"
| "get_prop JNull k = Inl (TypeError JNull k)"
| "get_prop (JObj kvs) k = Inr (case own_property kvs k of None \<Rightarrow> JUndefined | Some v \<Rightarrow> v)"
| "get_prop (JArr xs) k =
     Inr (if k = js ''0'' then (case xs of [] \<Rightarrow> JUndefined | x # _ \<Rightarrow> x) else JUndefined)"
| "get_prop (JStr s) k =
     Inr (if k = js ''0'' then (case s of [] \<Rightarrow> JUndefined | c # _ \<Rightarrow> JStr [c])
          else JUndefined)"
| "get_prop (JBool b) k = Inr JUndefined"
| "get_prop (JNum n) k = Inr JUndefined"

section \<open>The conversation controller (src/app/page.tsx)\<close>

subsection \<open>Messages and state\<close>

datatype role = User | Assistant

fun role_name :: "role \<Rightarrow> jsstring" where
  "role_name User = js ''user''"
| "role_name Assistant = js ''assistant''"

text \<open>
  The type \<open>Message\<close>. Its content is declared a string; the structured branch stores what
  the response carries, so the field holds a value.
\<close>

record message =
  role :: role
  content :: jsval
  msg_id :: jsstring

text \<open>The four pieces of component state.\<close>

record state =
  messages :: "message list"
  input :: jsstring
  isLoading :: bool
  error :: "jsstring option"

definition setMessages :: "(message list \<Rightarrow> message list) \<Rightarrow> state \<Rightarrow> state" where
  "setMessages f st = st\<lparr>messages := f (messages st)\<rparr>"

definition setInput :: "jsstring \<Rightarrow> state \<Rightarrow> state" where
  "setInput v st = st\<lparr>input := v\<rparr>"

definition setIsLoading :: "bool \<Rightarrow> state \<Rightarrow> state" where
  "setIsLoading v st = st\<lparr>isLoading := v\<rparr>"

definition setError :: "jsstring option \<Rightarrow> state \<Rightarrow> state" where
  "setError v st = st\<lparr>error := v\<rparr>"

text \<open>
  A run is recorded as the list of the states it passes through, the latest last; every
  call of a setter adds the state it produces. The updater given to \<open>setMessages\<close> is
  applied to the latest state, as React does for a run that no other handler interleaves
  with.
\<close>

type_synonym hist = "state list"

definition emit :: "(state \<Rightarrow> state) \<Rightarrow> hist \<Rightarrow> hist" where
  "emit f h = h @ [f (last h)]"

definition handleClearChat :: "state \<Rightarrow> state" where
  "handleClearChat st = setError None (setMessages (\<lambda>prev. []) st)"

subsection \<open>Fixed texts\<close>

text \<open>FALLBACK_0: \<^verbatim>\<open>Sorry, the AI service could not be reached. Here is a fallback answer.\<close>\<close>

definition FALLBACK_0 :: jsstring where
  "FALLBACK_0 =
     [0x418, 0x437, 0x432, 0x438, 0x43D, 0x438, 0x442, 0x435, 0x2C, 0x20, 0x43D, 0x435,
      0x20, 0x443, 0x434, 0x430, 0x43B, 0x43E, 0x441, 0x44C, 0x20, 0x43F, 0x43E, 0x434,
      0x43A, 0x43B, 0x44E, 0x447, 0x438, 0x442, 0x44C, 0x441, 0x44F, 0x20, 0x43A, 0x20,
      0x441, 0x435, 0x440, 0x432, 0x438, 0x441, 0x443, 0x20, 0x418, 0x418, 0x2E, 0x20,
      0x412, 0x43E, 0x442, 0x20, 0x437, 0x430, 0x43F, 0x430, 0x441, 0x43D, 0x43E, 0x439,
      0x20, 0x43E, 0x442, 0x432, 0x435, 0x442, 0x2E]"

text \<open>FALLBACK_1: \<^verbatim>\<open>The AI service is unavailable at the moment. Please try later.\<close>\<close>

definition FALLBACK_1 :: jsstring where
  "FALLBACK_1 =
     [0x421, 0x435, 0x440, 0x432, 0x438, 0x441, 0x20, 0x418, 0x418, 0x20, 0x432, 0x20,
      0x43D, 0x430, 0x441, 0x442, 0x43E, 0x44F, 0x449, 0x435, 0x435, 0x20, 0x432, 0x440,
      0x435, 0x43C, 0x44F, 0x20, 0x43D, 0x435, 0x434, 0x43E, 0x441, 0x442, 0x443, 0x43F,
      0x435, 0x43D, 0x2E, 0x20, 0x41F, 0x43E, 0x436, 0x430, 0x43B, 0x443, 0x439, 0x441,
      0x442, 0x430, 0x2C, 0x20, 0x43F, 0x43E, 0x43F, 0x440, 0x43E, 0x431, 0x443, 0x439,
      0x442, 0x435, 0x20, 0x43F, 0x43E, 0x437, 0x436, 0x435, 0x2E]"

text \<open>FALLBACK_2: \<^verbatim>\<open>I have trouble connecting to the AI service, but I am still here to help.\<close>\<close>

definition FALLBACK_2 :: jsstring where
  "FALLBACK_2 =
     [0x423, 0x20, 0x43C, 0x435, 0x43D, 0x44F, 0x20, 0x43F, 0x440, 0x43E, 0x431, 0x43B,
      0x435, 0x43C, 0x44B, 0x20, 0x441, 0x20, 0x43F, 0x43E, 0x434, 0x43A, 0x43B, 0x44E,
      0x447, 0x435, 0x43D, 0x438, 0x435, 0x43C, 0x20, 0x43A, 0x20, 0x441, 0x435, 0x440,
      0x432, 0x438, 0x441, 0x443, 0x20, 0x418, 0x418, 0x2C, 0x20, 0x43D, 0x43E, 0x20, 0x44F,
      0x20, 0x432, 0x441, 0x451, 0x20, 0x435, 0x449, 0x451, 0x20, 0x437, 0x434, 0x435,
      0x441, 0x44C, 0x2C, 0x20, 0x447, 0x442, 0x43E, 0x431, 0x44B, 0x20, 0x43F, 0x43E,
      0x43C, 0x43E, 0x447, 0x44C, 0x2E]"

text \<open>FALLBACK_3: \<^verbatim>\<open>There seems to be a problem with the AI service. Let me give a simple answer.\<close>\<close>

definition FALLBACK_3 :: jsstring where
  "FALLBACK_3 =
     [0x41F, 0x43E, 0x445, 0x43E, 0x436, 0x435, 0x2C, 0x20, 0x432, 0x43E, 0x437, 0x43D,
      0x438, 0x43A, 0x43B, 0x430, 0x20, 0x43F, 0x440, 0x43E, 0x431, 0x43B, 0x435, 0x43C,
      0x430, 0x20, 0x441, 0x20, 0x441, 0x435, 0x440, 0x432, 0x438, 0x441, 0x43E, 0x43C,
      0x20, 0x418, 0x418, 0x2E, 0x20, 0x41F, 0x43E, 0x437, 0x432, 0x43E, 0x43B, 0x44C,
      0x442, 0x435, 0x20, 0x43C, 0x43D, 0x435, 0x20, 0x43F, 0x440, 0x435, 0x434, 0x43E,
      0x441, 0x442, 0x430, 0x432, 0x438, 0x442, 0x44C, 0x20, 0x43F, 0x440, 0x43E, 0x441,
      0x442, 0x43E, 0x439, 0x20, 0x43E, 0x442, 0x432, 0x435, 0x442, 0x2E]"

text \<open>TIMEOUT_MESSAGE: \<^verbatim>\<open>The waiting time has run out. Please try again.\<close>\<close>

definition TIMEOUT_MESSAGE :: jsstring where
  "TIMEOUT_MESSAGE =
     [0x412, 0x440, 0x435, 0x43C, 0x44F, 0x20, 0x43E, 0x436, 0x438, 0x434, 0x430, 0x43D,
      0x438, 0x44F, 0x20, 0x438, 0x441, 0x442, 0x435, 0x43A, 0x43B, 0x43E, 0x2E, 0x20,
      0x41F, 0x43E, 0x436, 0x430, 0x43B, 0x443, 0x439, 0x441, 0x442, 0x430, 0x2C, 0x20,
      0x43F, 0x43E, 0x43F, 0x440, 0x43E, 0x431, 0x443, 0x439, 0x442, 0x435, 0x20, 0x441,
      0x43D, 0x43E, 0x432, 0x430, 0x2E]"

text \<open>NO_ANSWER: \<^verbatim>\<open>No answer could be obtained from the model.\<close>\<close>

definition NO_ANSWER :: jsstring where
  "NO_ANSWER =
     [0x41D, 0x435, 0x20, 0x443, 0x434, 0x430, 0x43B, 0x43E, 0x441, 0x44C, 0x20, 0x43F,
      0x43E, 0x43B, 0x443, 0x447, 0x438, 0x442, 0x44C, 0x20, 0x43E, 0x442, 0x432, 0x435,
      0x442, 0x20, 0x43E, 0x442, 0x20, 0x43C, 0x43E, 0x434, 0x435, 0x43B, 0x438, 0x2E]"

text \<open>SERVER_ERROR: \<^verbatim>\<open>Server error: (prefix of the message for a non-2xx status)\<close>\<close>

definition SERVER_ERROR :: jsstring where
  "SERVER_ERROR =
     [0x41E, 0x448, 0x438, 0x431, 0x43A, 0x430, 0x20, 0x441, 0x435, 0x440, 0x432, 0x435,
      0x440, 0x430, 0x3A, 0x20]"

text \<open>NO_BODY: \<^verbatim>\<open>The response has no body\<close>\<close>

definition NO_BODY :: jsstring where
  "NO_BODY =
     [0x422, 0x435, 0x43B, 0x43E, 0x20, 0x43E, 0x442, 0x432, 0x435, 0x442, 0x430, 0x20,
      0x43E, 0x442, 0x441, 0x443, 0x442, 0x441, 0x442, 0x432, 0x443, 0x435, 0x442]"

text \<open>UNEXPECTED_FORMAT: \<^verbatim>\<open>Unexpected response format from the server\<close>\<close>

definition UNEXPECTED_FORMAT :: jsstring where
  "UNEXPECTED_FORMAT =
     [0x41D, 0x435, 0x43E, 0x436, 0x438, 0x434, 0x430, 0x43D, 0x43D, 0x44B, 0x439, 0x20,
      0x444, 0x43E, 0x440, 0x43C, 0x430, 0x442, 0x20, 0x43E, 0x442, 0x432, 0x435, 0x442,
      0x430, 0x20, 0x43E, 0x442, 0x20, 0x441, 0x435, 0x440, 0x432, 0x435, 0x440, 0x430]"

definition FALLBACK_RESPONSES :: "jsstring list" where
  "FALLBACK_RESPONSES = [FALLBACK_0, FALLBACK_1, FALLBACK_2, FALLBACK_3]"

text \<open>The engine's AbortError; the program reads only its name.\<close>

definition AbortError :: exn where
  "AbortError = Exn (js ''AbortError'') (js ''signal is aborted without reason'')"

subsection \<open>The fallback answer\<close>

text \<open>
  \<open>getFallbackResponse\<close>, given the number \<open>Math.random()\<close> returned. The product with the
  length 4, a power of two, is exact in double arithmetic, so it is the real product; an
  index outside the array reads \<open>undefined\<close>.
\<close>

definition getFallbackResponse :: "real \<Rightarrow> jsval" where
  "getFallbackResponse r =
     (let index = \<lfloor>r * real (length FALLBACK_RESPONSES)\<rfloor>
      in if 0 \<le> index \<and> index < int (length FALLBACK_RESPONSES)
         then JStr (FALLBACK_RESPONSES ! nat index) else JUndefined)"

subsection \<open>The updates of a message already in the list\<close>

text \<open>
  The updater of the structured and of the streamed branch: \<open>find\<close> gives the first message
  with the id, and its content is assigned. The copy \<open>[...prev]\<close> shares the message
  objects, each of which occurs once in the list, so the assignment is the replacement
  of that element.
\<close>

fun set_content_by_id :: "jsstring \<Rightarrow> jsval \<Rightarrow> message list \<Rightarrow> message list" where
  "set_content_by_id aid v [] = []"
| "set_content_by_id aid v (m # ms) =
     (if msg_id m = aid then m\<lparr>content := v\<rparr> # ms else m # set_content_by_id aid v ms)"

text \<open>
  The updater of the failure path: the last message of the list, when there is one and it
  is the assistant's, gets the fallback answer; \<open>Math.random()\<close> is drawn only then.
\<close>

definition fallback_overwrite :: "real \<Rightarrow> message list \<Rightarrow> message list" where
  "fallback_overwrite r prev =
     (if prev \<noteq> [] \<and> role (last prev) = Assistant
      then butlast prev @ [(last prev)\<lparr>content := getFallbackResponse r\<rparr>]
      else prev)"

subsection \<open>The environment of one send\<close>

text \<open>
  What the platform contributes to one send: the two ids \<open>generateId()\<close> returns, the
  outcome of \<open>fetch\<close>, the number \<open>Math.random()\<close> returns, and when React runs the
  updaters that the read loop queues. Times are milliseconds from the dispatch of the
  request.

  React runs a queued updater when its scheduler gets to it: inside the call of
  \<open>setMessages\<close>, at a later \<open>await\<close>, or after the handler has returned; the updaters
  of one state run in the order of their calls. \<open>react_runs n\<close> says that the queue is
  run after call number \<open>n\<close> of \<open>setMessages\<close> in the read loop (counted from 0) and
  before the next one. Nothing changes the accumulated content between two calls, so
  this covers a run at any moment; what the loop leaves queued runs once the stream has
  ended.

  A response is what the handler can observe of it: status, the Content-Type header,
  what \<open>text()\<close> and \<open>json()\<close> settle with when the handler calls them, and the body
  stream (\<open>None\<close> when \<open>response.body\<close> is null) as the texts that
  \<open>decoder.decode(value, {stream: true})\<close> returns for the successive reads, ended by
  \<open>done\<close> or by a rejected read. \<open>completed_at\<close> is the time at which the whole body has
  arrived; the handler has no access to it.
\<close>

record stream =
  chunks :: "jsstring list"
  failure :: "exn option"

record response =
  status :: nat
  contentType :: "jsstring option"
  text_result :: "exn + jsstring"
  json_result :: "exn + jsval"
  body :: "stream option"
  completed_at :: nat

definition ok :: "response \<Rightarrow> bool" where
  "ok r = (200 \<le> status r \<and> status r \<le> 299)"

datatype fetch_outcome =
    Resolves nat response
  | Rejects nat exn
  | Pending

record env =
  userId :: jsstring
  assistantId :: jsstring
  fetched :: fetch_outcome
  math_random :: real
  react_runs :: "nat \<Rightarrow> bool"

text \<open>
  \<open>await fetch(..., {signal})\<close> under the timer \<open>setTimeout(() => controller.abort(), 60000)\<close>:
  a fetch that has not settled when the timer fires is aborted and rejects with an
  AbortError. \<open>clearTimeout\<close> follows the await at once, so the timer runs only until
  the fetch promise resolves, which is when the headers have arrived.
\<close>

definition await_fetch :: "fetch_outcome \<Rightarrow> exn + response" where
  "await_fetch f =
     (case f of
        Resolves t r \<Rightarrow> if t < 60000 then Inr r else Inl AbortError
      | Rejects t e \<Rightarrow> if t < 60000 then Inl e else Inl AbortError
      | Pending \<Rightarrow> Inl AbortError)"

subsection \<open>Reading a streamed response\<close>

text \<open>
  The loop's variable \<open>accumulatedContent\<close>, the number of updaters it has queued that
  React has not run yet, the number of its calls of \<open>setMessages\<close> so far, and the
  history.
\<close>

record reading =
  accumulatedContent :: jsstring
  queued :: nat
  calls :: nat
  past :: hist

text \<open>
  The updater of the loop is a closure over the variable \<open>accumulatedContent\<close>: it
  assigns what the variable holds when React runs it, which is not what it held when the
  updater was queued if further frames have been appended since. Running the queue
  applies the updater once for each queued call.
\<close>

definition run_queue :: "jsstring \<Rightarrow> reading \<Rightarrow> reading" where
  "run_queue aid s =
     s\<lparr>queued := 0,
       past := ((emit (setMessages (set_content_by_id aid (JStr (accumulatedContent s)))))
                  ^^ queued s) (past s)\<rparr>"

definition SyntaxError :: exn where
  "SyntaxError = Exn (js ''SyntaxError'') (js ''Unexpected token'')"

text \<open>
  The body of the \<open>try\<close> inside the loop over the lines of a chunk: \<open>Inl\<close> is what it
  throws, \<open>Inr\<close> the state of the loop after it. \<open>parse\<close> is \<open>JSON.parse\<close>, \<open>None\<close> for
  its SyntaxError; \<open>runs\<close> is \<open>react_runs\<close>.
\<close>

definition line_body ::
  "(jsstring \<Rightarrow> jsval option) \<Rightarrow> (nat \<Rightarrow> bool) \<Rightarrow> jsstring \<Rightarrow> reading \<Rightarrow> jsstring
    \<Rightarrow> exn + reading" where
  "line_body parse runs aid s line =
     (let trimmedLine = js_trim (strip_data line) in
      if trimmedLine = [] then Inr s
      else (case parse trimmedLine of
              None \<Rightarrow> Inl SyntaxError
            | Some parsedChunk \<Rightarrow>
                (case get_prop parsedChunk (js ''type'') of
                   Inl e \<Rightarrow> Inl e
                 | Inr ty \<Rightarrow>
                     if ty = JStr (js ''text'') then
                       (case get_prop parsedChunk (js ''value'') of
                          Inl e \<Rightarrow> Inl e
                        | Inr v \<Rightarrow>
                            (case to_string v of
                               Inl e \<Rightarrow> Inl e
                             | Inr appended \<Rightarrow>
                                 let s' = s\<lparr>accumulatedContent := accumulatedContent s @ appended,
                                            queued := Suc (queued s),
                                            calls := Suc (calls s)\<rparr>
                                 in Inr (if runs (calls s) then run_queue aid s' else s')))
                     else if ty = JStr (js ''error'') then
                       (case get_prop parsedChunk (js ''value'') of
                          Inl e \<Rightarrow> Inl e
                        | Inr v \<Rightarrow> Inl (new_Error v))
                     else Inr s)))"

text \<open>
  One iteration of the loop over the lines: whatever the body throws is caught by the
  \<open>catch\<close> of that iteration, logged, and the loop goes on with the next line.
\<close>

definition process_line ::
  "(jsstring \<Rightarrow> jsval option) \<Rightarrow> (nat \<Rightarrow> bool) \<Rightarrow> jsstring \<Rightarrow> reading \<Rightarrow> jsstring \<Rightarrow> reading" where
  "process_line parse runs aid s line =
     (case line_body parse runs aid s line of Inl e \<Rightarrow> s | Inr s' \<Rightarrow> s')"

definition lines_of :: "jsstring \<Rightarrow> jsstring list" where
  "lines_of chunk = filter (\<lambda>line. js_trim line \<noteq> []) (js_split_nn chunk)"

text \<open>The \<open>while (true)\<close> loop over the reads, one chunk each, until \<open>done\<close>.\<close>

fun read_loop ::
  "(jsstring \<Rightarrow> jsval option) \<Rightarrow> (nat \<Rightarrow> bool) \<Rightarrow> jsstring \<Rightarrow> jsstring list \<Rightarrow> reading
    \<Rightarrow> reading" where
  "read_loop parse runs aid [] s = s"
| "read_loop parse runs aid (chunk # rest) s =
     read_loop parse runs aid rest (foldl (process_line parse runs aid) s (lines_of chunk))"

subsection \<open>The send operation\<close>

text \<open>
  The inner \<open>try\<close> from the resolved fetch on: the exception it throws, if any, and the
  history. The updaters that the read loop has left queued run when the loop is over,
  before any updater queued later.
\<close>

definition handle_response ::
  "(jsstring \<Rightarrow> jsval option) \<Rightarrow> (nat \<Rightarrow> bool) \<Rightarrow> jsstring \<Rightarrow> response \<Rightarrow> hist
    \<Rightarrow> exn option \<times> hist" where
  "handle_response parse runs aid r h =
     (if \<not> ok r then
        (case text_result r of
           Inl e \<Rightarrow> (Some e, h)
         | Inr errorText \<Rightarrow>
             (Some (Error (SERVER_ERROR @ dec (status r) @ js ''. '' @ errorText)), h))
      else
        let contentType = (case contentType r of None \<Rightarrow> [] | Some c \<Rightarrow> c) in
        if js_includes contentType (js ''application/json'') then
          (case json_result r of
             Inl e \<Rightarrow> (Some e, h)
           | Inr data \<Rightarrow>
               (case get_prop data (js ''error'') of
                  Inl e \<Rightarrow> (Some e, h)
                | Inr err \<Rightarrow>
                    if truthy err then (Some (new_Error err), h)
                    else
                      (case get_prop data (js ''content'') of
                         Inl e \<Rightarrow> (Some e, h)
                       | Inr c \<Rightarrow>
                           (None,
                            emit (setMessages
                              (set_content_by_id aid (if truthy c then c else JStr NO_ANSWER)))
                              h))))
        else if js_includes contentType (js ''text/event-stream'') then
          (case body r of
             None \<Rightarrow> (Some (Error NO_BODY), h)
           | Some strm \<Rightarrow>
               (failure strm,
                past (run_queue aid
                  (read_loop parse runs aid (chunks strm)
                     \<lparr>accumulatedContent = [], queued = 0, calls = 0, past = h\<rparr>))))
        else (Some (Error UNEXPECTED_FORMAT), h))"

text \<open>The inner \<open>catch\<close>: an AbortError becomes the timeout error, anything else is rethrown.\<close>

definition rethrow :: "exn \<Rightarrow> exn" where
  "rethrow fetchError =
     (if exn_name fetchError = js ''AbortError'' then Error TIMEOUT_MESSAGE else fetchError)"

text \<open>
  The body sent to \<open>/api/chat\<close>, as the value given to \<open>JSON.stringify\<close>: \<open>messages\<close> is the
  state the handler was created with.
\<close>

definition wire_message :: "message \<Rightarrow> jsval" where
  "wire_message m = JObj [(js ''role'', JStr (role_name (role m))), (js ''content'', content m)]"

definition request_body :: "message list \<Rightarrow> message \<Rightarrow> jsval" where
  "request_body msgs userMessage =
     JObj [(js ''messages'', JArr (map wire_message (msgs @ [userMessage]))),
           (js ''model'', JStr (js ''mistral''))]"

record send_result =
  request :: "jsval option"
  trace :: hist

text \<open>
  \<open>handleSendMessage\<close>: the request it posts, if it posts one, and the states it passes
  through, the state it starts in first. The outer \<open>catch\<close> stores the message of what
  was thrown, and the \<open>finally\<close> block clears \<open>isLoading\<close>.
\<close>

definition handleSendMessage ::
  "(jsstring \<Rightarrow> jsval option) \<Rightarrow> env \<Rightarrow> state \<Rightarrow> send_result" where
  "handleSendMessage parse e st =
     (if js_trim (input st) = [] \<or> isLoading st then \<lparr>request = None, trace = [st]\<rparr>
      else
        let userMessage = \<lparr>role = User, content = JStr (input st), msg_id = userId e\<rparr>;
            h1 = emit (setMessages (\<lambda>prev. prev @ [userMessage])) [st];
            h2 = emit (setInput []) h1;
            h3 = emit (setIsLoading True) h2;
            h4 = emit (setError None) h3;
            assistantMessageId = assistantId e;
            h5 = emit (setMessages (\<lambda>prev. prev @
                   [\<lparr>role = Assistant, content = JStr [], msg_id = assistantMessageId\<rparr>])) h4;
            outcome = (case await_fetch (fetched e) of
                         Inl fetchError \<Rightarrow> (Some fetchError, h5)
                       | Inr response \<Rightarrow>
                           handle_response parse (react_runs e) assistantMessageId response h5);
            h7 = (case fst outcome of
                    None \<Rightarrow> snd outcome
                  | Some fetchError \<Rightarrow>
                      emit (setMessages (fallback_overwrite (math_random e)))
                        (emit (setError (Some (exn_message (rethrow fetchError)))) (snd outcome)))
        in \<lparr>request = Some (request_body (messages st) userMessage),
            trace = emit (setIsLoading False) h7\<rparr>)"

section \<open>The completion proxy (src/app/api/chat/route.ts)\<close>

text \<open>
  The route is the function \<open>POST\<close>. The table \<open>FALLBACK_MODELS\<close> and the function
  \<open>fetchFromOpenRouter\<close> of the same file are not used by it.
\<close>

subsection \<open>Fixed texts\<close>







subsection \<open>Model resolution\<close>





subsection \<open>Requests and responses\<close>

text \<open>
  The proxy's response: the status and the object given to \<open>JSON.stringify\<close>; the
  Content-Type is \<open>application/json\<close> on every path.
\<close>

record proxy_response =
  status_code :: nat
  payload :: "(jsstring \<times> jsval) list"








subsection \<open>The upstream call\<close>






subsection \<open>The handler\<close>


section \<open>Notions used in the statements\<close>

text \<open>
  The user message and the placeholder of a send, the state while the request is in flight
  with a given content of the placeholder, and the six states every accepted send starts
  with, one per setter call up to the appended placeholder.
\<close>

definition user_message :: "env \<Rightarrow> state \<Rightarrow> message" where
  "user_message e st = \<lparr>role = User, content = JStr (input st), msg_id = userId e\<rparr>"

definition placeholder :: "env \<Rightarrow> jsval \<Rightarrow> message" where
  "placeholder e c = \<lparr>role = Assistant, content = c, msg_id = assistantId e\<rparr>"

definition in_flight :: "env \<Rightarrow> state \<Rightarrow> jsval \<Rightarrow> state" where
  "in_flight e st c =
     \<lparr>messages = messages st @ [user_message e st, placeholder e c],
      input = [], isLoading = True, error = None\<rparr>"

definition prologue :: "env \<Rightarrow> state \<Rightarrow> hist" where
  "prologue e st =
     [st,
      st\<lparr>messages := messages st @ [user_message e st]\<rparr>,
      st\<lparr>messages := messages st @ [user_message e st], input := []\<rparr>,
      st\<lparr>messages := messages st @ [user_message e st], input := [], isLoading := True\<rparr>,
      st\<lparr>messages := messages st @ [user_message e st], input := [], isLoading := True,
         error := None\<rparr>,
      in_flight e st (JStr [])]"

text \<open>
  The end of an accepted send, from the outcome of the inner \<open>try\<close>: the outer \<open>catch\<close>
  when something was thrown, and the \<open>finally\<close> block.
\<close>

definition epilogue :: "env \<Rightarrow> exn option \<times> hist \<Rightarrow> hist" where
  "epilogue e outcome =
     emit (setIsLoading False)
       (case fst outcome of
          None \<Rightarrow> snd outcome
        | Some fetchError \<Rightarrow>
            emit (setMessages (fallback_overwrite (math_random e)))
              (emit (setError (Some (exn_message (rethrow fetchError)))) (snd outcome)))"

text \<open>The fetch promise has not settled when the timer fires.\<close>

fun unsettled_at_deadline :: "fetch_outcome \<Rightarrow> bool" where
  "unsettled_at_deadline (Resolves t r) = (60000 \<le> t)"
| "unsettled_at_deadline (Rejects t x) = (60000 \<le> t)"
| "unsettled_at_deadline Pending = True"

text \<open>The ids of the messages of a state.\<close>

definition ids_of :: "state \<Rightarrow> jsstring list" where
  "ids_of st = map msg_id (messages st)"

text \<open>
  What a line of a chunk appends to the accumulated content, if it is a text frame that
  parses.
\<close>

definition line_text :: "(jsstring \<Rightarrow> jsval option) \<Rightarrow> jsstring \<Rightarrow> jsstring option" where
  "line_text parse line =
     (let trimmedLine = js_trim (strip_data line) in
      if trimmedLine = [] then None
      else (case parse trimmedLine of
              None \<Rightarrow> None
            | Some parsedChunk \<Rightarrow>
                (case get_prop parsedChunk (js ''type'') of
                   Inl e \<Rightarrow> None
                 | Inr ty \<Rightarrow>
                     if ty = JStr (js ''text'') then
                       (case get_prop parsedChunk (js ''value'') of
                          Inl e \<Rightarrow> None
                        | Inr v \<Rightarrow> (case to_string v of Inl e \<Rightarrow> None | Inr t \<Rightarrow> Some t))
                     else None)))"

text \<open>The texts that the lines of the successive chunks append, in order.\<close>

definition texts_of :: "(jsstring \<Rightarrow> jsval option) \<Rightarrow> jsstring list \<Rightarrow> jsstring list" where
  "texts_of parse cs = List.map_filter (line_text parse) (concat (map lines_of cs))"


text \<open>The successive values of an accumulator that starts at \<open>acc\<close> and appends \<open>vs\<close>.\<close>

fun running :: "jsstring \<Rightarrow> jsstring list \<Rightarrow> jsstring list" where
  "running acc [] = []"
| "running acc (v # vs) = (acc @ v) # running (acc @ v) vs"

text \<open>
  The contents that the updaters of a read loop write, for the values \<open>vs\<close> that its
  text frames append, in order. Each frame appends its value to the accumulator and
  queues one updater; when React runs the queue, every queued updater writes the
  accumulator as it is then; what is queued at the end writes the final accumulator.
  The state is the accumulator, the number of queued updaters, the number of calls, and
  what has been written.
\<close>

type_synonym queue_state = "jsstring \<times> nat \<times> nat \<times> jsstring list"

definition frame_step :: "(nat \<Rightarrow> bool) \<Rightarrow> queue_state \<Rightarrow> jsstring \<Rightarrow> queue_state" where
  "frame_step runs x v =
     (case x of (acc, q, n, ws) \<Rightarrow>
        if runs n then (acc @ v, 0, Suc n, ws @ replicate (Suc q) (acc @ v))
        else (acc @ v, Suc q, Suc n, ws))"

definition flushed :: "queue_state \<Rightarrow> jsstring list" where
  "flushed x = (case x of (acc, q, n, ws) \<Rightarrow> ws @ replicate q acc)"

definition written :: "(nat \<Rightarrow> bool) \<Rightarrow> jsstring list \<Rightarrow> jsstring list" where
  "written runs vs = flushed (foldl (frame_step runs) ([], 0, 0, []) vs)"

text \<open>The state of the loop that goes with a queue state, from the history \<open>h\<close> on.\<close>

definition reading_of :: "env \<Rightarrow> state \<Rightarrow> hist \<Rightarrow> queue_state \<Rightarrow> reading" where
  "reading_of e st h x =
     (case x of (acc, q, n, ws) \<Rightarrow>
        \<lparr>accumulatedContent = acc, queued = q, calls = n,
         past = h @ map (\<lambda>w. in_flight e st (JStr w)) ws\<rparr>)"

text \<open>
  A text frame as the protocol has it, described without the handler's own functions:
  an optional marker \<open>data: \<close>, blanks, the JSON text of an object, blanks. The JSON
  text starts and ends with its braces and, like any frame of a stream whose frames are
  separated by blank lines, holds no blank line; it may hold single line feeds. It
  parses to an object whose \<open>type\<close> is \<open>text\<close> and whose \<open>value\<close> is the string the
  frame carries.
\<close>

datatype frame =
  Frame (marked: bool) (lead: jsstring) (payload: jsstring) (trail: jsstring) (carried: jsstring)

definition frame_text :: "frame \<Rightarrow> jsstring" where
  "frame_text f = (if marked f then js ''data: '' else []) @ lead f @ payload f @ trail f"

definition blank :: "jsstring \<Rightarrow> bool" where
  "blank s = list_all (\<lambda>c. c = 0x20 \<or> c = 0x9 \<or> c = 0xD) s"

fun no_blank_line :: "jsstring \<Rightarrow> bool" where
  "no_blank_line (a # b # cs) = (\<not> (a = 0xA \<and> b = 0xA) \<and> no_blank_line (b # cs))"
| "no_blank_line cs = True"

definition text_frame :: "(jsstring \<Rightarrow> jsval option) \<Rightarrow> frame \<Rightarrow> bool" where
  "text_frame parse f =
     (blank (lead f) \<and> blank (trail f) \<and> payload f \<noteq> [] \<and>
      hd (payload f) = 0x7B \<and> last (payload f) = 0x7D \<and> no_blank_line (payload f) \<and>
      (case parse (payload f) of
         Some (JObj kvs) \<Rightarrow>
           own_property kvs (js ''type'') = Some (JStr (js ''text'')) \<and>
           own_property kvs (js ''value'') = Some (JStr (carried f))
       | _ \<Rightarrow> False))"

text \<open>A chunk that holds whole frames, each followed by the blank line.\<close>

definition chunk_of :: "frame list \<Rightarrow> jsstring" where
  "chunk_of fs = concat (map (\<lambda>f. frame_text f @ [0xA, 0xA]) fs)"







section \<open>Sample inputs\<close>

text \<open>
  A reader for frames of the one shape \<^verbatim>\<open>{"type":"T","value":"V"}\<close>, where \<open>T\<close> and \<open>V\<close>
  hold no quote, backslash or control character: on such a text \<open>JSON.parse\<close> gives the
  object with these two string members. The texts it rejects in the examples below are
  not JSON.
\<close>

definition plain_text :: "jsstring \<Rightarrow> bool" where
  "plain_text s = list_all (\<lambda>c. c \<noteq> 0x22 \<and> c \<noteq> 0x5C \<and> 0x20 \<le> c) s"

definition strip_prefix :: "jsstring \<Rightarrow> jsstring \<Rightarrow> jsstring option" where
  "strip_prefix p s = (if starts_with s p then Some (drop (length p) s) else None)"

definition parse_frame :: "jsstring \<Rightarrow> jsval option" where
  \<open>parse_frame s =
     (case strip_prefix (js ''{"type":"'') s of
        None \<Rightarrow> None
      | Some r1 \<Rightarrow>
          (case strip_prefix (js ''","value":"'') (dropWhile (\<lambda>c. c \<noteq> 0x22) r1) of
             None \<Rightarrow> None
           | Some r2 \<Rightarrow>
               let ty = takeWhile (\<lambda>c. c \<noteq> 0x22) r1; v = takeWhile (\<lambda>c. c \<noteq> 0x22) r2 in
               if dropWhile (\<lambda>c. c \<noteq> 0x22) r2 = js ''"}'' \<and> plain_text ty \<and> plain_text v
               then Some (JObj [(js ''type'', JStr ty), (js ''value'', JStr v)])
               else None))\<close>

definition sample_history :: "message list" where
  "sample_history =
     [\<lparr>role = User, content = JStr (js ''hi''), msg_id = js ''m1''\<rparr>,
      \<lparr>role = Assistant, content = JStr (js ''hello''), msg_id = js ''m2''\<rparr>]"

definition sample_state :: state where
  "sample_state =
     \<lparr>messages = sample_history, input = js '' ping '', isLoading = False, error = None\<rparr>"

text \<open>
  Two environments: in the first React runs every updater before the next call, in the
  second it runs the queue after the third call of the read loop and not before.
\<close>

definition sample_env :: "fetch_outcome \<Rightarrow> env" where
  "sample_env f =
     \<lparr>userId = js ''m3'', assistantId = js ''m4'', fetched = f, math_random = 1 / 2,
      react_runs = (\<lambda>n. True)\<rparr>"

definition batching_env :: "fetch_outcome \<Rightarrow> env" where
  "batching_env f =
     \<lparr>userId = js ''m3'', assistantId = js ''m4'', fetched = f, math_random = 1 / 2,
      react_runs = (\<lambda>n. n = 2)\<rparr>"





text \<open>
  A 200 response with a JSON body, given as its text and the value the text parses to,
  and a 200 response with an event stream that ends normally, given as the texts of its
  chunks.
\<close>

definition json_response :: "jsstring \<Rightarrow> jsval \<Rightarrow> nat \<Rightarrow> response" where
  "json_response raw data t =
     \<lparr>status = 200, contentType = Some (js ''application/json''),
      text_result = Inr raw, json_result = Inr data,
      body = Some \<lparr>chunks = [raw], failure = None\<rparr>, completed_at = t\<rparr>"

definition stream_response :: "jsstring list \<Rightarrow> nat \<Rightarrow> response" where
  "stream_response cs t =
     \<lparr>status = 200, contentType = Some (js ''text/event-stream''),
      text_result = Inr (concat cs), json_result = Inl SyntaxError,
      body = Some \<lparr>chunks = cs, failure = None\<rparr>, completed_at = t\<rparr>"

definition content_X_response :: "nat \<Rightarrow> response" where
  \<open>content_X_response t =
     json_response (js ''{"content":"X"}'') (JObj [(js ''content'', JStr (js ''X''))]) t\<close>

definition content_empty_response :: "nat \<Rightarrow> response" where
  \<open>content_empty_response t =
     json_response (js ''{"content":""}'') (JObj [(js ''content'', JStr [])]) t\<close>

section \<open>The shape of a run\<close>

text \<open>Every step of the handler only adds states to the history.\<close>

lemma funpow_emit_extends: "\<exists>ext. ((emit f) ^^ n) h = h @ ext"
proof (induction n)
  case 0
  then show ?case by simp
next
  case (Suc n)
  then obtain ext where ext: "((emit f) ^^ n) h = h @ ext" by blast
  have "((emit f) ^^ Suc n) h = emit f (((emit f) ^^ n) h)" by simp
  also have "\<dots> = emit f (h @ ext)" using ext by simp
  also have "\<dots> = h @ (ext @ [f (last (h @ ext))])" by (simp add: emit_def)
  finally show ?case by blast
qed

lemma run_queue_extends: "\<exists>ext. past (run_queue aid s) = past s @ ext"
  using funpow_emit_extends by (simp add: run_queue_def)

lemma process_line_extends: "\<exists>ext. past (process_line parse runs aid s line) = past s @ ext"
proof -
  have "\<exists>ext. past (run_queue aid s') = past s @ ext" if "past s' = past s" for s'
    using run_queue_extends [of aid s'] that by simp
  then show ?thesis
    by (auto simp: process_line_def line_body_def Let_def split: sum.splits option.splits)
qed

lemma foldl_process_line_extends:
  "\<exists>ext. past (foldl (process_line parse runs aid) s ls) = past s @ ext"
proof (induction ls arbitrary: s)
  case Nil
  then show ?case by simp
next
  case (Cons l ls)
  obtain e1 where e1: "past (process_line parse runs aid s l) = past s @ e1"
    using process_line_extends by blast
  obtain e2 where "past (foldl (process_line parse runs aid) (process_line parse runs aid s l) ls)
      = past (process_line parse runs aid s l) @ e2"
    using Cons.IH by blast
  with e1 show ?case by simp
qed

lemma read_loop_extends: "\<exists>ext. past (read_loop parse runs aid cs s) = past s @ ext"
proof (induction cs arbitrary: s)
  case Nil
  then show ?case by simp
next
  case (Cons c cs)
  obtain e1 where e1: "past (foldl (process_line parse runs aid) s (lines_of c)) = past s @ e1"
    using foldl_process_line_extends by blast
  obtain e2 where
    "past (read_loop parse runs aid cs (foldl (process_line parse runs aid) s (lines_of c)))
      = past (foldl (process_line parse runs aid) s (lines_of c)) @ e2"
    using Cons.IH by blast
  with e1 show ?case by simp
qed

lemma handle_response_extends: "\<exists>ext. snd (handle_response parse runs aid r h) = h @ ext"
proof -
  have "\<exists>ext. past (run_queue aid (read_loop parse runs aid cs
      \<lparr>accumulatedContent = [], queued = 0, calls = 0, past = h\<rparr>)) = h @ ext" for cs
  proof -
    obtain e1 where "past (read_loop parse runs aid cs
        \<lparr>accumulatedContent = [], queued = 0, calls = 0, past = h\<rparr>) = h @ e1"
      using read_loop_extends
        [of parse runs aid cs "\<lparr>accumulatedContent = [], queued = 0, calls = 0, past = h\<rparr>"]
      by auto
    moreover obtain e2 where "past (run_queue aid (read_loop parse runs aid cs
        \<lparr>accumulatedContent = [], queued = 0, calls = 0, past = h\<rparr>)) =
        past (read_loop parse runs aid cs
          \<lparr>accumulatedContent = [], queued = 0, calls = 0, past = h\<rparr>) @ e2"
      using run_queue_extends by blast
    ultimately show ?thesis by simp
  qed
  then show ?thesis
    by (auto simp: handle_response_def Let_def emit_def split: sum.splits option.splits)
qed

lemma prologue_eq:
  "emit (setMessages (\<lambda>prev. prev @ [\<lparr>role = Assistant, content = JStr [], msg_id = assistantId e\<rparr>]))
     (emit (setError None) (emit (setIsLoading True) (emit (setInput [])
       (emit (setMessages (\<lambda>prev. prev @ [\<lparr>role = User, content = JStr (input st), msg_id = userId e\<rparr>])) [st]))))
   = prologue e st"
  by (simp add: emit_def prologue_def in_flight_def user_message_def placeholder_def
      setMessages_def setInput_def setIsLoading_def setError_def)

lemma trace_accepted:
  assumes "js_trim (input st) \<noteq> []" and "\<not> isLoading st"
  shows "trace (handleSendMessage parse e st) =
    epilogue e (case await_fetch (fetched e) of
                 Inl fetchError \<Rightarrow> (Some fetchError, prologue e st)
               | Inr response \<Rightarrow> handle_response parse (react_runs e) (assistantId e) response (prologue e st))"
  using assms
  by (simp add: handleSendMessage_def Let_def prologue_eq epilogue_def
      cong: sum.case_cong option.case_cong)

lemma epilogue_extends: "\<exists>ext. epilogue e (x, h @ mid) = h @ ext"
  by (cases x) (simp_all add: epilogue_def emit_def)

lemma trace_prologue:
  assumes "js_trim (input st) \<noteq> []" and "\<not> isLoading st"
  shows "\<exists>ext. trace (handleSendMessage parse e st) = prologue e st @ ext"
proof (cases "await_fetch (fetched e)")
  case (Inl fetchError)
  then show ?thesis
    using epilogue_extends [of e "Some fetchError" "prologue e st" "[]"]
    by (simp add: trace_accepted [OF assms])
next
  case (Inr response)
  obtain x h where xh: "handle_response parse (react_runs e) (assistantId e) response (prologue e st) = (x, h)"
    by (cases "handle_response parse (react_runs e) (assistantId e) response (prologue e st)")
  then obtain mid where "h = prologue e st @ mid"
    using handle_response_extends [of parse "react_runs e" "assistantId e" response "prologue e st"]
    by auto
  then show ?thesis
    using epilogue_extends [of e x "prologue e st" mid] Inr xh
    by (simp add: trace_accepted [OF assms])
qed

subsection \<open>The placeholder while the request is in flight\<close>

lemma set_content_fresh:
  "aid \<notin> msg_id ` set pre \<Longrightarrow> msg_id m = aid \<Longrightarrow>
   set_content_by_id aid v (pre @ m # post) = pre @ m\<lparr>content := v\<rparr> # post"
  by (induction pre) auto

lemma in_flight_update:
  assumes "assistantId e \<notin> set (ids_of st)" and "assistantId e \<noteq> userId e"
  shows "setMessages (set_content_by_id (assistantId e) v) (in_flight e st c) = in_flight e st v"
proof -
  have "assistantId e \<notin> msg_id ` set (messages st @ [user_message e st])"
    using assms by (auto simp: ids_of_def user_message_def)
  then have "set_content_by_id (assistantId e) v ((messages st @ [user_message e st]) @ placeholder e c # [])
      = (messages st @ [user_message e st]) @ (placeholder e c)\<lparr>content := v\<rparr> # []"
    by (rule set_content_fresh) (simp add: placeholder_def)
  then show ?thesis
    by (simp add: setMessages_def in_flight_def placeholder_def)
qed

lemma last_prologue: "last (prologue e st) = in_flight e st (JStr [])"
  by (simp add: prologue_def)

lemma fallback_in_flight:
  "setMessages (fallback_overwrite r) ((in_flight e st c)\<lparr>error := x\<rparr>) =
     (in_flight e st (getFallbackResponse r))\<lparr>error := x\<rparr>"
  by (simp add: setMessages_def fallback_overwrite_def in_flight_def placeholder_def
      butlast_append)

lemma structured_trace:
  assumes "js_trim (input st) \<noteq> []" and "\<not> isLoading st"
    and "fetched e = Resolves t r" and "t < 60000" and "ok r"
    and "contentType r = Some ct" and "js_includes ct (js ''application/json'')"
    and "json_result r = Inr data"
    and "get_prop data (js ''error'') = Inr err" and "\<not> truthy err"
    and "get_prop data (js ''content'') = Inr c"
    and "assistantId e \<notin> set (ids_of st)" and "assistantId e \<noteq> userId e"
  shows "trace (handleSendMessage parse e st) =
    prologue e st @
      [in_flight e st (if truthy c then c else JStr NO_ANSWER),
       (in_flight e st (if truthy c then c else JStr NO_ANSWER))\<lparr>isLoading := False\<rparr>]"
proof -
  have "handle_response parse (react_runs e) (assistantId e) r (prologue e st) =
      (None, prologue e st @ [in_flight e st (if truthy c then c else JStr NO_ANSWER)])"
    using assms(5-11) in_flight_update [OF assms(12,13)]
    by (simp add: handle_response_def emit_def last_prologue)
  then show ?thesis
    using assms(3,4)
    by (simp add: trace_accepted [OF assms(1,2)] await_fetch_def epilogue_def emit_def
        setIsLoading_def)
qed

lemma timeout_trace:
  assumes "js_trim (input st) \<noteq> []" and "\<not> isLoading st"
    and "unsettled_at_deadline (fetched e)"
  shows "trace (handleSendMessage parse e st) =
    prologue e st @
      [(in_flight e st (JStr []))\<lparr>error := Some TIMEOUT_MESSAGE\<rparr>,
       (in_flight e st (getFallbackResponse (math_random e)))\<lparr>error := Some TIMEOUT_MESSAGE\<rparr>,
       (in_flight e st (getFallbackResponse (math_random e)))
         \<lparr>isLoading := False, error := Some TIMEOUT_MESSAGE\<rparr>]"
proof -
  have "await_fetch (fetched e) = Inl AbortError"
    using assms(3) by (cases "fetched e") (simp_all add: await_fetch_def)
  moreover have "exn_message (rethrow AbortError) = TIMEOUT_MESSAGE"
    by (simp add: rethrow_def AbortError_def Error_def)
  ultimately show ?thesis
    by (simp add: trace_accepted [OF assms(1,2)] epilogue_def emit_def last_prologue
        setError_def setIsLoading_def fallback_in_flight in_flight_def
        setMessages_def fallback_overwrite_def placeholder_def butlast_append)
qed

text \<open>The end of a send whose inner try threw \<open>x\<close> with the placeholder at \<open>c\<close>.\<close>

lemma epilogue_thrown:
  "epilogue e (Some x, h @ [in_flight e st c]) =
     h @ [in_flight e st c,
          (in_flight e st c)\<lparr>error := Some (exn_message (rethrow x))\<rparr>,
          (in_flight e st (getFallbackResponse (math_random e)))
            \<lparr>error := Some (exn_message (rethrow x))\<rparr>,
          (in_flight e st (getFallbackResponse (math_random e)))
            \<lparr>isLoading := False, error := Some (exn_message (rethrow x))\<rparr>]"
  by (simp add: epilogue_def emit_def setError_def setIsLoading_def fallback_in_flight)


lemma structured_error_trace:
  assumes "js_trim (input st) \<noteq> []" and "\<not> isLoading st"
    and "fetched e = Resolves t r" and "t < 60000" and "ok r"
    and "contentType r = Some ct" and "js_includes ct (js ''application/json'')"
    and "json_result r = Inr data"
    and "get_prop data (js ''error'') = Inr err" and "truthy err"
    and "to_string err = Inr msg"
  shows "trace (handleSendMessage parse e st) =
    prologue e st @
      [(in_flight e st (JStr []))\<lparr>error := Some msg\<rparr>,
       (in_flight e st (getFallbackResponse (math_random e)))\<lparr>error := Some msg\<rparr>,
       (in_flight e st (getFallbackResponse (math_random e)))
         \<lparr>isLoading := False, error := Some msg\<rparr>]"
proof -
  have "err \<noteq> JUndefined" using assms(10) by auto
  then have "exn_message (rethrow (new_Error err)) = msg"
    using assms(11) by (simp add: rethrow_def new_Error_def Error_def js_def)
  moreover have "handle_response parse (react_runs e) (assistantId e) r (prologue e st) =
      (Some (new_Error err), prologue e st)"
    using assms(5-10) by (simp add: handle_response_def)
  moreover have "prologue e st = take 5 (prologue e st) @ [in_flight e st (JStr [])]"
    by (simp add: prologue_def)
  ultimately show ?thesis
    using assms(3,4)
      epilogue_thrown [of e "new_Error err" "take 5 (prologue e st)" st "JStr []"]
    by (simp add: trace_accepted [OF assms(1,2)] await_fetch_def)
qed

subsection \<open>The read loop and the queue of updaters\<close>

lemma funpow_emit_in_flight:
  assumes "assistantId e \<notin> set (ids_of st)" and "assistantId e \<noteq> userId e"
    and "h \<noteq> []" and "last h = in_flight e st c"
  shows "((emit (setMessages (set_content_by_id (assistantId e) (JStr w)))) ^^ q) h =
    h @ replicate q (in_flight e st (JStr w))"
proof (induction q)
  case 0
  then show ?case by simp
next
  case (Suc q)
  let ?f = "setMessages (set_content_by_id (assistantId e) (JStr w))"
  let ?h = "h @ replicate q (in_flight e st (JStr w))"
  have "\<exists>c'. last ?h = in_flight e st c'"
  proof (cases q)
    case 0
    then show ?thesis using assms(4) by auto
  next
    case (Suc n)
    have "h @ replicate (Suc n) (in_flight e st (JStr w)) =
        (h @ replicate n (in_flight e st (JStr w))) @ [in_flight e st (JStr w)]"
      by (simp add: replicate_append_same)
    then have "last (h @ replicate (Suc n) (in_flight e st (JStr w))) = in_flight e st (JStr w)"
      by (simp only: last_snoc)
    then show ?thesis using Suc by blast
  qed
  then obtain c' where c': "last ?h = in_flight e st c'" by blast
  have "((emit ?f) ^^ Suc q) h = emit ?f ?h"
    using Suc by simp
  also have "\<dots> = ?h @ [in_flight e st (JStr w)]"
    using c' in_flight_update [OF assms(1,2)] by (simp add: emit_def)
  also have "\<dots> = h @ replicate (Suc q) (in_flight e st (JStr w))"
    by (simp add: replicate_append_same)
  finally show ?case .
qed

lemma last_reading_history:
  "h \<noteq> [] \<Longrightarrow> last h = in_flight e st c \<Longrightarrow>
   \<exists>c'. last (h @ map (\<lambda>w. in_flight e st (JStr w)) ws) = in_flight e st c'"
  by (cases ws rule: rev_cases) auto

lemma run_queue_reading:
  assumes "assistantId e \<notin> set (ids_of st)" and "assistantId e \<noteq> userId e"
    and "h \<noteq> []" and "last h = in_flight e st c"
  shows "run_queue (assistantId e) (reading_of e st h (acc, q, n, ws)) =
    reading_of e st h (acc, 0, n, ws @ replicate q acc)"
proof -
  let ?h = "h @ map (\<lambda>w. in_flight e st (JStr w)) ws"
  obtain c' where c': "last ?h = in_flight e st c'"
    using last_reading_history [OF assms(3,4)] by blast
  have ne: "?h \<noteq> []" using assms(3) by simp
  have "((emit (setMessages (set_content_by_id (assistantId e) (JStr acc)))) ^^ q) ?h =
      ?h @ replicate q (in_flight e st (JStr acc))"
    by (rule funpow_emit_in_flight [OF assms(1,2) ne c'])
  then show ?thesis
    by (simp add: run_queue_def reading_of_def map_replicate)
qed

lemma frame_step_simp:
  "frame_step runs (acc, q, n, ws) v =
     (if runs n then (acc @ v, 0, Suc n, ws @ replicate (Suc q) (acc @ v))
      else (acc @ v, Suc q, Suc n, ws))"
  by (simp add: frame_step_def)

lemma process_line_char:
  assumes "assistantId e \<notin> set (ids_of st)" and "assistantId e \<noteq> userId e"
    and "h \<noteq> []" and "last h = in_flight e st c"
  shows "process_line parse runs (assistantId e) (reading_of e st h x) line =
    (case line_text parse line of
       None \<Rightarrow> reading_of e st h x
     | Some v \<Rightarrow> reading_of e st h (frame_step runs x v))"
proof -
  obtain acc q n ws where x: "x = (acc, q, n, ws)" by (cases x)
  have queued: "(reading_of e st h (acc, q, n, ws))
      \<lparr>accumulatedContent := acc @ v, queued := Suc q, calls := Suc n\<rparr> =
      reading_of e st h (acc @ v, Suc q, Suc n, ws)" for v
    by (simp add: reading_of_def)
  have fields: "accumulatedContent (reading_of e st h (acc, q, n, ws)) = acc"
    "queued (reading_of e st h (acc, q, n, ws)) = q"
    "calls (reading_of e st h (acc, q, n, ws)) = n"
    by (simp_all add: reading_of_def)
  show ?thesis
    unfolding x
    by (simp add: process_line_def line_body_def line_text_def Let_def fields queued
        run_queue_reading [OF assms] frame_step_simp
        split: option.splits sum.splits)
qed

lemma map_filter_append:
  "List.map_filter f (xs @ ys) = List.map_filter f xs @ List.map_filter f ys"
  by (simp add: List.map_filter_def)

lemma map_filter_Cons:
  "List.map_filter f (x # xs) =
     (case f x of None \<Rightarrow> List.map_filter f xs | Some y \<Rightarrow> y # List.map_filter f xs)"
  by (simp add: List.map_filter_def split: option.splits)

lemma foldl_char:
  assumes "assistantId e \<notin> set (ids_of st)" and "assistantId e \<noteq> userId e"
    and "h \<noteq> []" and "last h = in_flight e st c"
  shows "foldl (process_line parse runs (assistantId e)) (reading_of e st h x) ls =
    reading_of e st h (foldl (frame_step runs) x (List.map_filter (line_text parse) ls))"
proof (induction ls arbitrary: x)
  case Nil
  then show ?case by (simp add: List.map_filter_def)
next
  case (Cons l ls)
  show ?case
    using Cons.IH process_line_char [OF assms, of parse runs x l]
    by (cases "line_text parse l") (simp_all add: map_filter_Cons)
qed

lemma read_loop_char:
  assumes "assistantId e \<notin> set (ids_of st)" and "assistantId e \<noteq> userId e"
    and "h \<noteq> []" and "last h = in_flight e st c"
  shows "read_loop parse runs (assistantId e) cs (reading_of e st h x) =
    reading_of e st h (foldl (frame_step runs) x (texts_of parse cs))"
proof (induction cs arbitrary: x)
  case Nil
  then show ?case by (simp add: texts_of_def List.map_filter_def)
next
  case (Cons chunk cs)
  show ?case
    using Cons.IH foldl_char [OF assms, of parse runs x "lines_of chunk"]
    by (simp add: texts_of_def map_filter_append)
qed

lemma read_outcome:
  assumes "assistantId e \<notin> set (ids_of st)" and "assistantId e \<noteq> userId e"
  shows "past (run_queue (assistantId e) (read_loop parse runs (assistantId e) cs
      \<lparr>accumulatedContent = [], queued = 0, calls = 0, past = prologue e st\<rparr>)) =
    prologue e st @ map (\<lambda>w. in_flight e st (JStr w)) (written runs (texts_of parse cs))"
proof -
  have ne: "prologue e st \<noteq> []" by (simp add: prologue_def)
  obtain acc q n ws where x:
    "foldl (frame_step runs) ([], 0, 0, []) (texts_of parse cs) = (acc, q, n, ws)"
    by (cases "foldl (frame_step runs) ([], 0, 0, []) (texts_of parse cs)")
  have start: "\<lparr>accumulatedContent = [], queued = 0, calls = 0, past = prologue e st\<rparr> =
      reading_of e st (prologue e st) ([], 0, 0, [])"
    by (simp add: reading_of_def)
  have "read_loop parse runs (assistantId e) cs
      \<lparr>accumulatedContent = [], queued = 0, calls = 0, past = prologue e st\<rparr> =
      reading_of e st (prologue e st) (acc, q, n, ws)"
    unfolding start using read_loop_char [OF assms ne last_prologue] x by simp
  then have "past (run_queue (assistantId e) (read_loop parse runs (assistantId e) cs
      \<lparr>accumulatedContent = [], queued = 0, calls = 0, past = prologue e st\<rparr>)) =
      prologue e st @ map (\<lambda>w. in_flight e st (JStr w)) (ws @ replicate q acc)"
    using run_queue_reading [OF assms ne last_prologue]
    by (simp add: reading_of_def)
  then show ?thesis
    using x by (simp add: written_def flushed_def)
qed

lemma stream_outcome:
  assumes "assistantId e \<notin> set (ids_of st)" and "assistantId e \<noteq> userId e"
    and "ok r" and "contentType r = Some ct"
    and "\<not> js_includes ct (js ''application/json'')"
    and "js_includes ct (js ''text/event-stream'')"
    and "body r = Some strm"
  shows "handle_response parse runs (assistantId e) r (prologue e st) =
    (failure strm,
     prologue e st @ map (\<lambda>w. in_flight e st (JStr w)) (written runs (texts_of parse (chunks strm))))"
  using assms(3-7) read_outcome [OF assms(1,2)] by (simp add: handle_response_def)

subsection \<open>What the queued updaters write\<close>

lemma frame_step_invariant:
  assumes "drop n vals = vs" and "n \<le> length vals" and "acc = concat (take n vals)"
    and "length ws + q = n"
    and "\<forall>i<length ws. \<exists>k. i < k \<and> k \<le> n \<and> ws ! i = concat (take k vals)"
  shows "\<exists>ws' q'. foldl (frame_step runs) (acc, q, n, ws) vs =
      (concat vals, q', length vals, ws') \<and> length ws' + q' = length vals \<and>
      (\<forall>i<length ws'. \<exists>k. i < k \<and> k \<le> length vals \<and> ws' ! i = concat (take k vals))"
  using assms
proof (induction vs arbitrary: acc q n ws)
  case Nil
  then have "n = length vals" by simp
  then show ?case using Nil by simp
next
  case (Cons v vs)
  have n: "n < length vals" using Cons.prems(1) by (cases "n < length vals") simp_all
  have "vals ! n # drop (Suc n) vals = v # vs"
    using Cons.prems(1) Cons_nth_drop_Suc [OF n] by simp
  then have v: "vals ! n = v" and rest: "drop (Suc n) vals = vs"
    by simp_all
  have acc': "acc @ v = concat (take (Suc n) vals)"
    using Cons.prems(3) n v by (simp add: take_Suc_conv_app_nth)
  show ?case
  proof (cases "runs n")
    case True
    let ?ws = "ws @ replicate (Suc q) (acc @ v)"
    have len: "length ?ws + 0 = Suc n" using Cons.prems(4) by simp
    have each: "\<forall>i<length ?ws. \<exists>k. i < k \<and> k \<le> Suc n \<and> ?ws ! i = concat (take k vals)"
    proof (intro allI impI)
      fix i assume i: "i < length ?ws"
      show "\<exists>k. i < k \<and> k \<le> Suc n \<and> ?ws ! i = concat (take k vals)"
      proof (cases "i < length ws")
        case True
        then obtain k where "i < k" "k \<le> n" "ws ! i = concat (take k vals)"
          using Cons.prems(5) by blast
        then show ?thesis using True by (intro exI [of _ k]) (simp add: nth_append)
      next
        case False
        then have "i - length ws < Suc q" using i by simp
        then have "replicate (Suc q) (acc @ v) ! (i - length ws) = acc @ v"
          by (rule nth_replicate)
        then have "?ws ! i = acc @ v" using False by (simp only: nth_append if_False)
        moreover have "i < Suc n" using i len by simp
        ultimately show ?thesis using acc' by (intro exI [of _ "Suc n"]) simp
      qed
    qed
    have "\<exists>ws' q'. foldl (frame_step runs) (acc @ v, 0, Suc n, ?ws) vs =
        (concat vals, q', length vals, ws') \<and> length ws' + q' = length vals \<and>
        (\<forall>i<length ws'. \<exists>k. i < k \<and> k \<le> length vals \<and> ws' ! i = concat (take k vals))"
      using rest n acc' len each by (intro Cons.IH) simp_all
    then show ?thesis using True by (simp add: frame_step_simp del: replicate.simps)
  next
    case False
    have each: "\<forall>i<length ws. \<exists>k. i < k \<and> k \<le> Suc n \<and> ws ! i = concat (take k vals)"
      using Cons.prems(5) by (meson le_SucI)
    have "\<exists>ws' q'. foldl (frame_step runs) (acc @ v, Suc q, Suc n, ws) vs =
        (concat vals, q', length vals, ws') \<and> length ws' + q' = length vals \<and>
        (\<forall>i<length ws'. \<exists>k. i < k \<and> k \<le> length vals \<and> ws' ! i = concat (take k vals))"
      using rest n acc' Cons.prems(4) each by (intro Cons.IH) simp_all
    then show ?thesis using False by (simp add: frame_step_simp)
  qed
qed

lemma written_prefixes:
  "length (written runs vals) = length vals \<and>
   (\<forall>i<length vals. \<exists>k. i < k \<and> k \<le> length vals \<and>
      written runs vals ! i = concat (take k vals))"
proof -
  obtain ws q where run: "foldl (frame_step runs) ([], 0, 0, []) vals =
      (concat vals, q, length vals, ws)"
    and len: "length ws + q = length vals"
    and each: "\<forall>i<length ws. \<exists>k. i < k \<and> k \<le> length vals \<and> ws ! i = concat (take k vals)"
    using frame_step_invariant [of 0 vals vals "[]" "[]" 0 runs] by auto
  have w: "written runs vals = ws @ replicate q (concat vals)"
    by (simp add: written_def flushed_def run)
  have "\<exists>k. i < k \<and> k \<le> length vals \<and> written runs vals ! i = concat (take k vals)"
    if "i < length vals" for i
  proof (cases "i < length ws")
    case True
    then show ?thesis using each by (simp add: w nth_append)
  next
    case False
    then have "written runs vals ! i = concat vals"
      using that len by (simp add: w nth_append)
    then show ?thesis using that by (intro exI [of _ "length vals"]) simp
  qed
  then show ?thesis using len by (simp add: w)
qed

lemma last_written: "vals \<noteq> [] \<Longrightarrow> last (written runs vals) = concat vals"
proof -
  assume ne: "vals \<noteq> []"
  have len: "length (written runs vals) = length vals"
    using written_prefixes by blast
  then have wne: "written runs vals \<noteq> []" using ne by auto
  have "length vals - 1 < length vals" using ne by simp
  then obtain k where "length vals - 1 < k" "k \<le> length vals"
    "written runs vals ! (length vals - 1) = concat (take k vals)"
    using written_prefixes by blast
  moreover from this have "k = length vals" by simp
  ultimately show ?thesis using wne len by (simp add: last_conv_nth)
qed

lemma frame_step_always:
  "\<forall>n. runs n \<Longrightarrow>
   foldl (frame_step runs) (acc, 0, n, ws) vs =
     (acc @ concat vs, 0, n + length vs, ws @ running acc vs)"
  by (induction vs arbitrary: acc n ws) (simp_all add: frame_step_simp)

lemma written_always: "\<forall>n. runs n \<Longrightarrow> written runs vals = running [] vals"
  using frame_step_always [of runs "[]" 0 "[]" vals] by (simp add: written_def flushed_def)

lemma last_stream_history:
  "last (prologue e st @ map (\<lambda>w. in_flight e st (JStr w)) (written runs vs)) =
     in_flight e st (JStr (concat vs))"
proof (cases vs)
  case Nil
  then show ?thesis by (simp add: last_prologue written_def flushed_def)
next
  case (Cons v ws)
  then have "written runs vs \<noteq> []"
    using written_prefixes [of runs vs] by auto
  then show ?thesis
    using last_written [of vs runs] Cons by (simp add: last_map)
qed

lemma emit_loading_off:
  "h \<noteq> [] \<Longrightarrow> emit (setIsLoading False) h = h @ [(last h)\<lparr>isLoading := False\<rparr>]"
  by (simp add: emit_def setIsLoading_def)

lemma completed_stream_trace:
  assumes "js_trim (input st) \<noteq> []" and "\<not> isLoading st"
    and "assistantId e \<notin> set (ids_of st)" and "assistantId e \<noteq> userId e"
    and "fetched e = Resolves t r" and "t < 60000"
    and "ok r" and "contentType r = Some ct"
    and "\<not> js_includes ct (js ''application/json'')"
    and "js_includes ct (js ''text/event-stream'')"
    and "body r = Some strm" and "failure strm = None"
  shows "trace (handleSendMessage parse e st) =
    prologue e st @
      map (\<lambda>w. in_flight e st (JStr w)) (written (react_runs e) (texts_of parse (chunks strm)))
      @ [(in_flight e st (JStr (concat (texts_of parse (chunks strm)))))\<lparr>isLoading := False\<rparr>]"
proof -
  let ?h = "prologue e st @
      map (\<lambda>w. in_flight e st (JStr w)) (written (react_runs e) (texts_of parse (chunks strm)))"
  have "?h \<noteq> []" by (simp add: prologue_def)
  then have "epilogue e (None, ?h) = ?h @ [(last ?h)\<lparr>isLoading := False\<rparr>]"
    by (simp add: epilogue_def emit_loading_off)
  then show ?thesis
    using assms(5,6,12) stream_outcome [OF assms(3,4,7-11), of parse "react_runs e"]
    by (simp add: trace_accepted [OF assms(1,2)] await_fetch_def last_stream_history)
qed

subsection \<open>Chunks of whole frames\<close>

lemma split_piece:
  "g \<noteq> [] \<Longrightarrow> last g \<noteq> 0xA \<Longrightarrow> no_blank_line g \<Longrightarrow>
   js_split_nn (g @ 0xA # 0xA # rest) = g # js_split_nn rest"
proof (induction g)
  case Nil
  then show ?case by simp
next
  case (Cons a g)
  show ?case
  proof (cases g)
    case Nil
    then show ?thesis using Cons.prems by simp
  next
    case (Cons b g')
    then have "js_split_nn (g @ 0xA # 0xA # rest) = g # js_split_nn rest"
      using Cons.prems by (intro Cons.IH) simp_all
    then show ?thesis using Cons Cons.prems by simp
  qed
qed

lemma no_blank_line_free: "0xA \<notin> set s \<Longrightarrow> no_blank_line s"
  by (induction s rule: no_blank_line.induct) simp_all

lemma no_blank_line_append:
  "no_blank_line a \<Longrightarrow> no_blank_line b \<Longrightarrow> a = [] \<or> last a \<noteq> 0xA \<Longrightarrow> no_blank_line (a @ b)"
proof (induction a)
  case Nil
  then show ?case by simp
next
  case (Cons x a)
  show ?case
  proof (cases a)
    case Nil
    then show ?thesis using Cons.prems by (cases b) simp_all
  next
    case (Cons y a')
    then have "no_blank_line (a @ b)"
      using Cons.prems by (intro Cons.IH) simp_all
    then show ?thesis using Cons Cons.prems by simp
  qed
qed

lemma blank_spaces: "blank s \<Longrightarrow> list_all is_space s"
  by (induction s) (auto simp: blank_def is_space_def)

lemma blank_no_feed: "blank s \<Longrightarrow> 0xA \<notin> set s"
  by (induction s) (auto simp: blank_def)

lemma blank_last: "blank s \<Longrightarrow> s \<noteq> [] \<Longrightarrow> last s \<noteq> 0xA"
  using blank_no_feed [of s] last_in_set [of s] by metis

lemma braces_not_space: "\<not> is_space 0x7B" "\<not> is_space 0x7D"
  by (simp_all add: is_space_def)

lemma trim_padded:
  assumes "list_all is_space l" and "list_all is_space t"
    and "p \<noteq> []" and "\<not> is_space (hd p)" and "\<not> is_space (last p)"
  shows "js_trim (l @ p @ t) = p"
proof -
  have "dropWhile is_space (l @ p @ t) = dropWhile is_space (p @ t)"
    using assms(1) by (simp add: list_all_iff dropWhile_append2)
  also have "\<dots> = p @ t"
    using assms(3,4) by (cases p) simp_all
  finally have front: "dropWhile is_space (l @ p @ t) = p @ t" .
  have "dropWhile is_space (rev t @ rev p) = dropWhile is_space (rev p)"
    by (rule dropWhile_append2) (use assms(2) in \<open>simp add: list_all_iff\<close>)
  then have "dropWhile is_space (rev (p @ t)) = dropWhile is_space (rev p)"
    by simp
  also have "\<dots> = rev p"
    using assms(3,5) by (cases p rule: rev_cases) simp_all
  finally show ?thesis by (simp add: js_trim_def front)
qed

lemma trim_empty_iff: "js_trim s = [] \<longleftrightarrow> list_all is_space s"
proof
  assume "js_trim s = []"
  then have "dropWhile is_space (rev (dropWhile is_space s)) = []"
    by (simp add: js_trim_def)
  then have all: "\<forall>c\<in>set (dropWhile is_space s). is_space c"
    by (simp add: dropWhile_eq_Nil_conv)
  have "dropWhile is_space s = []"
  proof (rule ccontr)
    assume ne: "dropWhile is_space s \<noteq> []"
    then have "\<not> is_space (hd (dropWhile is_space s))" by (rule hd_dropWhile)
    moreover have "hd (dropWhile is_space s) \<in> set (dropWhile is_space s)"
      using ne by simp
    ultimately show False using all by blast
  qed
  then show "list_all is_space s"
    by (simp add: dropWhile_eq_Nil_conv list_all_iff)
next
  assume "list_all is_space s"
  then have d: "dropWhile is_space s = []"
    by (simp add: dropWhile_eq_Nil_conv list_all_iff)
  show "js_trim s = []" unfolding js_trim_def d by simp
qed

lemma d_not_space: "\<not> is_space 0x64"
  by (simp add: is_space_def)

lemma starts_with_data: "starts_with s (js ''data: '') \<Longrightarrow> \<exists>t. s = 0x64 # t"
  by (cases s) (simp_all add: js_def)

lemma starts_with_append: "starts_with (p @ s) p"
  by (induction p) simp_all

lemma strip_marked: "strip_data (js ''data: '' @ s) = s"
proof -
  have "length (js ''data: '') = 6" by (simp add: js_def)
  then show ?thesis by (simp add: strip_data_def starts_with_append)
qed

lemma strip_unmarked: "s \<noteq> [] \<Longrightarrow> hd s \<noteq> 0x64 \<Longrightarrow> strip_data s = s"
  using starts_with_data [of s] by (auto simp: strip_data_def)

lemma frame_head:
  assumes "blank l" and "p \<noteq> []" and "hd p = 0x7B"
  shows "l @ p @ t \<noteq> []" and "hd (l @ p @ t) \<noteq> 0x64"
proof -
  show "l @ p @ t \<noteq> []" using assms(2) by simp
  show "hd (l @ p @ t) \<noteq> 0x64"
  proof (cases l)
    case Nil
    then show ?thesis using assms(2,3) by simp
  next
    case (Cons c cs)
    then show ?thesis using assms(1) by (auto simp: blank_def)
  qed
qed

lemma strip_frame_text:
  assumes "text_frame parse f"
  shows "strip_data (frame_text f) = lead f @ payload f @ trail f"
proof (cases "marked f")
  case True
  then show ?thesis by (simp add: frame_text_def strip_marked)
next
  case False
  have "blank (lead f)" "payload f \<noteq> []" "hd (payload f) = 0x7B"
    using assms by (simp_all add: text_frame_def)
  then show ?thesis
    using False frame_head [of "lead f" "payload f" "trail f"]
    by (simp add: frame_text_def strip_unmarked)
qed

lemma trim_frame_text:
  assumes "text_frame parse f"
  shows "js_trim (strip_data (frame_text f)) = payload f"
proof -
  have "blank (lead f)" "blank (trail f)" "payload f \<noteq> []"
    "hd (payload f) = 0x7B" "last (payload f) = 0x7D"
    using assms by (simp_all add: text_frame_def)
  then show ?thesis
    using trim_padded [of "lead f" "trail f" "payload f"]
    by (simp add: strip_frame_text [OF assms] blank_spaces braces_not_space)
qed

lemma frame_text_visible:
  assumes "text_frame parse f"
  shows "js_trim (frame_text f) \<noteq> []"
proof -
  have "payload f \<noteq> []" "hd (payload f) = 0x7B"
    using assms by (simp_all add: text_frame_def)
  then have "hd (payload f) \<in> set (payload f)" "\<not> is_space (hd (payload f))"
    using hd_in_set [of "payload f"] by (simp_all add: braces_not_space)
  then have "\<not> list_all is_space (frame_text f)"
    by (auto simp: frame_text_def list_all_iff)
  then show ?thesis by (simp add: trim_empty_iff)
qed

lemma frame_text_piece:
  assumes "text_frame parse f"
  shows "frame_text f \<noteq> []" and "last (frame_text f) \<noteq> 0xA" and "no_blank_line (frame_text f)"
proof -
  have l: "blank (lead f)" and t: "blank (trail f)" and p: "payload f \<noteq> []"
    and h: "hd (payload f) = 0x7B" and e: "last (payload f) = 0x7D"
    and n: "no_blank_line (payload f)"
    using assms by (simp_all add: text_frame_def)
  show "frame_text f \<noteq> []" using p by (simp add: frame_text_def)
  have tail: "last (payload f @ trail f) \<noteq> 0xA"
    using p e blank_last [OF t] by (cases "trail f = []") simp_all
  then show "last (frame_text f) \<noteq> 0xA"
    using p by (simp add: frame_text_def)
  have "payload f = [] \<or> last (payload f) \<noteq> 0xA" using e by simp
  then have outer: "no_blank_line (payload f @ trail f)"
    by (rule no_blank_line_append [OF n no_blank_line_free [OF blank_no_feed [OF t]]])
  have "lead f = [] \<or> last (lead f) \<noteq> 0xA" using blank_last [OF l] by blast
  then have inner: "no_blank_line (lead f @ payload f @ trail f)"
    by (rule no_blank_line_append [OF no_blank_line_free [OF blank_no_feed [OF l]] outer])
  have "no_blank_line (js ''data: '')" "js ''data: '' = [] \<or> last (js ''data: '') \<noteq> 0xA"
    by (simp_all add: js_def)
  then have "no_blank_line (js ''data: '' @ lead f @ payload f @ trail f)"
    using inner no_blank_line_append by blast
  then show "no_blank_line (frame_text f)"
    using inner by (simp add: frame_text_def)
qed

lemma text_frame_line:
  assumes "text_frame parse f"
  shows "line_text parse (frame_text f) = Some (carried f)"
proof -
  obtain kvs where "parse (payload f) = Some (JObj kvs)"
    and "own_property kvs (js ''type'') = Some (JStr (js ''text''))"
    and "own_property kvs (js ''value'') = Some (JStr (carried f))"
    and "payload f \<noteq> []"
    using assms by (auto simp: text_frame_def split: option.splits jsval.splits)
  then show ?thesis
    by (simp add: line_text_def trim_frame_text [OF assms])
qed

lemma split_chunk_of:
  "list_all (text_frame parse) fs \<Longrightarrow> js_split_nn (chunk_of fs) = map frame_text fs @ [[]]"
proof (induction fs)
  case Nil
  then show ?case by (simp add: chunk_of_def)
next
  case (Cons f fs)
  then have "js_split_nn (chunk_of fs) = map frame_text fs @ [[]]" and f: "text_frame parse f"
    by simp_all
  moreover have "chunk_of (f # fs) = frame_text f @ 0xA # 0xA # chunk_of fs"
    by (simp add: chunk_of_def)
  ultimately show ?case
    using split_piece [OF frame_text_piece [OF f], of "chunk_of fs"] by simp
qed

lemma lines_of_chunk:
  assumes "list_all (text_frame parse) fs"
  shows "lines_of (chunk_of fs) = map frame_text fs"
proof -
  have "js_split_nn (chunk_of fs) = map frame_text fs @ [[]]"
    using assms by (rule split_chunk_of)
  moreover have "filter (\<lambda>line. js_trim line \<noteq> []) (map frame_text fs) = map frame_text fs"
    using assms frame_text_visible by (auto simp: list_all_iff filter_id_conv)
  moreover have "js_trim [] = []" by (simp add: js_trim_def)
  ultimately show ?thesis by (simp add: lines_of_def)
qed

lemma lines_of_chunks:
  "list_all (list_all (text_frame parse)) fss \<Longrightarrow>
   concat (map lines_of (map chunk_of fss)) = map frame_text (concat fss)"
  by (induction fss) (auto simp: lines_of_chunk)

lemma texts_of_chunk:
  assumes "list_all (text_frame parse) fs"
  shows "List.map_filter (line_text parse) (lines_of (chunk_of fs)) = map carried fs"
proof -
  have "List.map_filter (line_text parse) (map frame_text fs) = map carried fs"
    using assms
  proof (induction fs)
    case Nil
    then show ?case by (simp add: List.map_filter_def)
  next
    case (Cons f fs)
    then show ?case using text_frame_line [of parse f] by (simp add: map_filter_Cons)
  qed
  then show ?thesis using lines_of_chunk [OF assms] by simp
qed

lemma texts_of_chunks:
  "list_all (list_all (text_frame parse)) fss \<Longrightarrow>
   texts_of parse (map chunk_of fss) = map carried (concat fss)"
proof (induction fss)
  case Nil
  then show ?case by (simp add: texts_of_def List.map_filter_def)
next
  case (Cons fs fss)
  then have "texts_of parse (map chunk_of fss) = map carried (concat fss)"
    and "List.map_filter (line_text parse) (lines_of (chunk_of fs)) = map carried fs"
    using texts_of_chunk by simp_all
  then show ?case by (simp add: texts_of_def map_filter_append)
qed

subsection \<open>Which messages the updaters change\<close>











subsection \<open>The sample inputs\<close>

lemma sample_fresh:
  "assistantId (sample_env f) \<notin> set (ids_of sample_state)"
  "assistantId (sample_env f) \<noteq> userId (sample_env f)"
  by (simp_all add: sample_env_def sample_state_def sample_history_def ids_of_def js_def)

lemma sample_env_simps:
  "fetched (sample_env f) = f" "math_random (sample_env f) = 1 / 2"
  "userId (sample_env f) = js ''m3''" "assistantId (sample_env f) = js ''m4''"
  by (simp_all add: sample_env_def)

lemma in_flight_sample:
  "in_flight (sample_env f) sample_state c =
     \<lparr>messages = sample_history @
        [\<lparr>role = User, content = JStr (js '' ping ''), msg_id = js ''m3''\<rparr>,
         \<lparr>role = Assistant, content = c, msg_id = js ''m4''\<rparr>],
      input = [], isLoading = True, error = None\<rparr>"
  by (simp add: in_flight_def user_message_def placeholder_def sample_env_def sample_state_def)

lemma content_X_simps:
  "ok (content_X_response t)"
  "contentType (content_X_response t) = Some (js ''application/json'')"
  "json_result (content_X_response t) = Inr (JObj [(js ''content'', JStr (js ''X''))])"
  "completed_at (content_X_response t) = t"
  by (simp_all add: content_X_response_def json_response_def ok_def)

lemma content_empty_simps:
  "ok (content_empty_response t)"
  "contentType (content_empty_response t) = Some (js ''application/json'')"
  "json_result (content_empty_response t) = Inr (JObj [(js ''content'', JStr [])])"
  by (simp_all add: content_empty_response_def json_response_def ok_def)

lemma stream_response_simps:
  "ok (stream_response cs t)"
  "contentType (stream_response cs t) = Some (js ''text/event-stream'')"
  "body (stream_response cs t) = Some \<lparr>chunks = cs, failure = None\<rparr>"
  "completed_at (stream_response cs t) = t"
  by (simp_all add: stream_response_def ok_def)

lemma includes_json: "js_includes (js ''application/json'') (js ''application/json'')"
  by (simp add: js_def)

lemma includes_stream:
  "\<not> js_includes (js ''text/event-stream'') (js ''application/json'')"
  "js_includes (js ''text/event-stream'') (js ''text/event-stream'')"
  by (simp_all add: js_def)

lemma sample_accepted: "js_trim (input sample_state) \<noteq> []" "\<not> isLoading sample_state"
  by (simp_all add: sample_state_def js_trim_def is_space_def js_def)

lemma react_runs_sample: "react_runs (sample_env f) = (\<lambda>n. True)"
  by (simp add: sample_env_def)

lemma batching_fresh:
  "assistantId (batching_env f) \<notin> set (ids_of sample_state)"
  "assistantId (batching_env f) \<noteq> userId (batching_env f)"
  by (simp_all add: batching_env_def sample_state_def sample_history_def ids_of_def js_def)

lemma batching_env_simps:
  "fetched (batching_env f) = f" "react_runs (batching_env f) = (\<lambda>n. n = 2)"
  by (simp_all add: batching_env_def)

lemma in_flight_batching:
  "in_flight (batching_env f) sample_state c =
     \<lparr>messages = sample_history @
        [\<lparr>role = User, content = JStr (js '' ping ''), msg_id = js ''m3''\<rparr>,
         \<lparr>role = Assistant, content = c, msg_id = js ''m4''\<rparr>],
      input = [], isLoading = True, error = None\<rparr>"
  by (simp add: in_flight_def user_message_def placeholder_def batching_env_def sample_state_def)

lemma written_Nil: "written runs [] = []"
  by (simp add: written_def flushed_def)

lemma written_immediately: "written (\<lambda>n. True) vs = running [] vs"
  by (rule written_always) simp

lemma written_batched: "written (\<lambda>n. n = 2) [a, b, c] = [a @ b @ c, a @ b @ c, a @ b @ c]"
  by (simp add: written_def flushed_def frame_step_simp numeral_2_eq_2)

lemmas eval_frames = texts_of_def lines_of_def line_text_def parse_frame_def strip_prefix_def
  plain_text_def strip_data_def js_trim_def is_space_def js_def List.map_filter_def
  own_property_def

lemma error_frame_texts:
  \<open>texts_of parse_frame [js ''data: {"type":"error","value":"boom"}\<newline>\<newline>''] = []\<close>
  by (simp add: eval_frames)

lemma cut_frame_texts:
  \<open>texts_of parse_frame [js ''data: {"type":"te'', js ''xt","value":"He"}\<newline>\<newline>''] = []\<close>
  by (simp add: eval_frames)

lemma whole_frame:
  \<open>text_frame parse_frame (Frame True [] (js ''{"type":"text","value":"He"}'') [] (js ''He''))\<close>
  \<open>text_frame parse_frame (Frame True [] (js ''{"type":"text","value":"llo"}'') [] (js ''llo''))\<close>
  \<open>text_frame parse_frame (Frame True [] (js ''{"type":"text","value":"A"}'') [] (js ''A''))\<close>
  \<open>text_frame parse_frame (Frame True [] (js ''{"type":"text","value":"B"}'') [] (js ''B''))\<close>
  \<open>text_frame parse_frame (Frame True [] (js ''{"type":"text","value":"C"}'') [] (js ''C''))\<close>
  by (simp_all add: text_frame_def blank_def parse_frame_def strip_prefix_def plain_text_def
      js_def own_property_def)

lemma batched_chunk:
  \<open>js ''data: {"type":"text","value":"A"}\<newline>\<newline>data: {"type":"text","value":"B"}\<newline>\<newline>data: {"type":"text","value":"C"}\<newline>\<newline>'' =
    chunk_of [Frame True [] (js ''{"type":"text","value":"A"}'') [] (js ''A''),
              Frame True [] (js ''{"type":"text","value":"B"}'') [] (js ''B''),
              Frame True [] (js ''{"type":"text","value":"C"}'') [] (js ''C'')]\<close>
  by (simp add: chunk_of_def frame_text_def js_def)

lemma batched_texts:
  \<open>texts_of parse_frame
     [js ''data: {"type":"text","value":"A"}\<newline>\<newline>data: {"type":"text","value":"B"}\<newline>\<newline>data: {"type":"text","value":"C"}\<newline>\<newline>''] =
   [js ''A'', js ''B'', js ''C'']\<close>
proof -
  have \<open>texts_of parse_frame (map chunk_of
      [[Frame True [] (js ''{"type":"text","value":"A"}'') [] (js ''A''),
        Frame True [] (js ''{"type":"text","value":"B"}'') [] (js ''B''),
        Frame True [] (js ''{"type":"text","value":"C"}'') [] (js ''C'')]]) =
     map carried (concat
      [[Frame True [] (js ''{"type":"text","value":"A"}'') [] (js ''A''),
        Frame True [] (js ''{"type":"text","value":"B"}'') [] (js ''B''),
        Frame True [] (js ''{"type":"text","value":"C"}'') [] (js ''C'')]])\<close>
    by (rule texts_of_chunks) (simp add: whole_frame)
  then show ?thesis unfolding batched_chunk by simp
qed

section \<open>The paths of the proxy\<close>





















section \<open>The fallback answer is always one of the four texts\<close>

lemma fallback_nonempty: "s \<in> set FALLBACK_RESPONSES \<Longrightarrow> s \<noteq> []"
  by (auto simp: FALLBACK_RESPONSES_def FALLBACK_0_def FALLBACK_1_def FALLBACK_2_def
      FALLBACK_3_def)

text \<open>
  Claim C9. Whatever number in \<open>[0, 1)\<close> \<open>Math.random()\<close> returns, the index computed by
  \<open>getFallbackResponse\<close> lies inside the array of four fallback texts: the selector returns
  a string, never \<open>undefined\<close>, that is one of the four and is not empty.
\<close>

theorem getFallbackResponse_in_set:
  assumes "0 \<le> r" and "r < 1"
  shows "length FALLBACK_RESPONSES = 4 \<and>
    (\<exists>s. getFallbackResponse r = JStr s \<and> s \<in> set FALLBACK_RESPONSES \<and> s \<noteq> [])"
proof -
  have len: "length FALLBACK_RESPONSES = 4"
    by (simp add: FALLBACK_RESPONSES_def)
  have lo: "0 \<le> \<lfloor>r * 4\<rfloor>" using assms(1) by simp
  have "r * 4 < 4" using assms(2) by simp
  then have hi: "\<lfloor>r * 4\<rfloor> < 4" by (simp add: floor_less_iff)
  from lo hi have "nat \<lfloor>r * 4\<rfloor> < 4" by linarith
  then have idx: "nat \<lfloor>r * 4\<rfloor> < length FALLBACK_RESPONSES" using len by simp
  then have mem: "FALLBACK_RESPONSES ! nat \<lfloor>r * 4\<rfloor> \<in> set FALLBACK_RESPONSES"
    by (rule nth_mem)
  have "getFallbackResponse r = JStr (FALLBACK_RESPONSES ! nat \<lfloor>r * 4\<rfloor>)"
    using lo hi by (simp add: getFallbackResponse_def len)
  with mem fallback_nonempty len show ?thesis by blast
qed

theorem getFallbackResponse_in_set_witness:
  "length FALLBACK_RESPONSES = 4 \<and>
    (\<exists>s. getFallbackResponse (1 / 2) = JStr s \<and> s \<in> set FALLBACK_RESPONSES \<and> s \<noteq> [])"
  using getFallbackResponse_in_set [of "1 / 2"] by simp

section \<open>The request envelope\<close>

text \<open>
  Claim C8. A send that is accepted (the trimmed input is not empty and no request is in
  flight) posts the prior messages followed by the new user message, each as an object of
  \<open>role\<close> and \<open>content\<close> only, and the model name \<open>mistral\<close>; the assistant placeholder,
  appended to the state before the request, is not among them.
\<close>

theorem request_envelope:
  assumes "js_trim (input st) \<noteq> []" and "\<not> isLoading st"
  shows "request (handleSendMessage parse e st) =
    Some (JObj [(js ''messages'',
                 JArr (map (\<lambda>m. JObj [(js ''role'', JStr (role_name (role m))),
                                       (js ''content'', content m)]) (messages st)
                       @ [JObj [(js ''role'', JStr (js ''user'')),
                                (js ''content'', JStr (input st))]])),
                (js ''model'', JStr (js ''mistral''))])"
  using assms
  by (simp add: handleSendMessage_def Let_def request_body_def wire_message_def)

theorem request_envelope_witness:
  "request (handleSendMessage parse_frame (sample_env Pending) sample_state) =
    Some (JObj [(js ''messages'',
                 JArr [JObj [(js ''role'', JStr (js ''user'')), (js ''content'', JStr (js ''hi''))],
                       JObj [(js ''role'', JStr (js ''assistant'')),
                             (js ''content'', JStr (js ''hello''))],
                       JObj [(js ''role'', JStr (js ''user'')),
                             (js ''content'', JStr (js '' ping ''))]]),
                (js ''model'', JStr (js ''mistral''))])"
  using request_envelope [OF sample_accepted, of parse_frame "sample_env Pending"]
  by (simp add: sample_state_def sample_history_def)

section \<open>The user message keeps the raw input\<close>

text \<open>
  Claim C10. In an accepted send the user message appended to the conversation has the
  input text as typed for its content, leading and trailing white space included, and so
  has the last message of the posted envelope: \<open>trim\<close> only decides whether the send is
  a no-op.
\<close>

theorem user_content_is_raw_input:
  assumes "js_trim (input st) \<noteq> []" and "\<not> isLoading st"
  shows "messages (trace (handleSendMessage parse e st) ! 1) =
      messages st @ [\<lparr>role = User, content = JStr (input st), msg_id = userId e\<rparr>]
    \<and> (\<exists>sent. request (handleSendMessage parse e st) =
          Some (JObj [(js ''messages'', JArr sent), (js ''model'', JStr (js ''mistral''))])
        \<and> sent \<noteq> []
        \<and> last sent = JObj [(js ''role'', JStr (js ''user'')), (js ''content'', JStr (input st))])"
proof -
  obtain ext where "trace (handleSendMessage parse e st) = prologue e st @ ext"
    using trace_prologue [OF assms] by blast
  then have "trace (handleSendMessage parse e st) ! 1 = prologue e st ! 1"
    by (simp add: prologue_def nth_append)
  then have "messages (trace (handleSendMessage parse e st) ! 1) =
      messages st @ [\<lparr>role = User, content = JStr (input st), msg_id = userId e\<rparr>]"
    by (simp add: prologue_def user_message_def)
  moreover have "request (handleSendMessage parse e st) =
      Some (JObj [(js ''messages'', JArr (map wire_message (messages st @ [user_message e st]))),
                  (js ''model'', JStr (js ''mistral''))])"
    using assms by (simp add: handleSendMessage_def Let_def request_body_def user_message_def)
  moreover have "last (map wire_message (messages st @ [user_message e st])) =
      JObj [(js ''role'', JStr (js ''user'')), (js ''content'', JStr (input st))]"
    by (simp add: wire_message_def user_message_def)
  ultimately show ?thesis by simp
qed

theorem user_content_is_raw_input_witness:
  "messages (trace (handleSendMessage parse_frame (sample_env Pending) sample_state) ! 1) =
      sample_history @ [\<lparr>role = User, content = JStr (js '' ping ''), msg_id = js ''m3''\<rparr>]"
  using user_content_is_raw_input [OF sample_accepted, of parse_frame "sample_env Pending"]
  by (simp add: sample_state_def sample_env_def)

section \<open>Structured responses\<close>

text \<open>
  Claim C5, amended. For a structured JSON response without an error field, the run makes
  exactly one update after the placeholder has been appended, and that update sets the
  placeholder's content: to the value of \<open>content\<close> when that value is truthy, and to the
  "no answer" text when the field is absent or its value is falsy, as the empty string is.
  The \<open>finally\<close> block follows.
\<close>

theorem structured_content_one_update:
  assumes "js_trim (input st) \<noteq> []" and "\<not> isLoading st"
    and "assistantId e \<notin> set (ids_of st)" and "assistantId e \<noteq> userId e"
    and "fetched e = Resolves t r" and "t < 60000" and "ok r"
    and "contentType r = Some ct" and "js_includes ct (js ''application/json'')"
    and "json_result r = Inr data"
    and "get_prop data (js ''error'') = Inr JUndefined"
    and "get_prop data (js ''content'') = Inr c"
  shows "trace (handleSendMessage parse e st) =
    prologue e st @
      [in_flight e st (if truthy c then c else JStr NO_ANSWER),
       (in_flight e st (if truthy c then c else JStr NO_ANSWER))\<lparr>isLoading := False\<rparr>]"
  using assms(1,2,5-11) _ assms(12,3,4) by (rule structured_trace) simp

theorem structured_content_one_update_witness:
  "trace (handleSendMessage parse_frame
      (sample_env (Resolves 1000 (content_X_response 2000)))
      sample_state) =
   prologue (sample_env (Resolves 1000 (content_X_response 2000)))
      sample_state @
     [\<lparr>messages = sample_history @
        [\<lparr>role = User, content = JStr (js '' ping ''), msg_id = js ''m3''\<rparr>,
         \<lparr>role = Assistant, content = JStr (js ''X''), msg_id = js ''m4''\<rparr>],
       input = [], isLoading = True, error = None\<rparr>,
      \<lparr>messages = sample_history @
        [\<lparr>role = User, content = JStr (js '' ping ''), msg_id = js ''m3''\<rparr>,
         \<lparr>role = Assistant, content = JStr (js ''X''), msg_id = js ''m4''\<rparr>],
       input = [], isLoading = False, error = None\<rparr>]"
  using structured_content_one_update [where t = 1000 and c = "JStr (js ''X'')"
      and parse = parse_frame,
      OF sample_accepted sample_fresh sample_env_simps(1) _
      content_X_simps(1,2) includes_json content_X_simps(3)]
  by (simp add: in_flight_sample js_def own_property_def)

text \<open>
  As stated the claim fails: a response \<^verbatim>\<open>{"content": ""}\<close> has the field, and the
  placeholder ends with the "no answer" text, not with the field's value.
\<close>

theorem empty_content_replaced:
  "json_result (content_empty_response 2000) = Inr (JObj [(js ''content'', JStr [])]) \<and>
   get_prop (JObj [(js ''content'', JStr [])]) (js ''content'') = Inr (JStr []) \<and>
   last (trace (handleSendMessage parse_frame
      (sample_env (Resolves 1000 (content_empty_response 2000)))
      sample_state)) =
     \<lparr>messages = sample_history @
        [\<lparr>role = User, content = JStr (js '' ping ''), msg_id = js ''m3''\<rparr>,
         \<lparr>role = Assistant, content = JStr NO_ANSWER, msg_id = js ''m4''\<rparr>],
       input = [], isLoading = False, error = None\<rparr> \<and>
   NO_ANSWER \<noteq> []"
  using structured_trace [where t = 1000 and err = JUndefined and c = "JStr []"
      and parse = parse_frame,
      OF sample_accepted sample_env_simps(1) _
      content_empty_simps(1,2) includes_json content_empty_simps(3) _ _ _ sample_fresh]
  by (simp add: in_flight_sample js_def NO_ANSWER_def content_empty_simps own_property_def)

section \<open>The timeout\<close>

text \<open>
  Claim C4, amended. When the fetch promise has not settled 60 seconds after the dispatch,
  that is, the response headers have not arrived, the request is aborted and the send
  fails with the timeout message as the error; the placeholder gets a fallback answer,
  and \<open>isLoading\<close>, true from the fourth state on, becomes false once, in the last state.
\<close>

theorem timeout_before_headers:
  assumes "js_trim (input st) \<noteq> []" and "\<not> isLoading st"
    and "unsettled_at_deadline (fetched e)"
  shows "trace (handleSendMessage parse e st) =
      prologue e st @
        [(in_flight e st (JStr []))\<lparr>error := Some TIMEOUT_MESSAGE\<rparr>,
         (in_flight e st (getFallbackResponse (math_random e)))\<lparr>error := Some TIMEOUT_MESSAGE\<rparr>,
         (in_flight e st (getFallbackResponse (math_random e)))
           \<lparr>isLoading := False, error := Some TIMEOUT_MESSAGE\<rparr>]
    \<and> map isLoading (trace (handleSendMessage parse e st)) =
        [False, False, False, True, True, True, True, True, False]"
  using assms by (simp add: timeout_trace prologue_def in_flight_def)

theorem timeout_before_headers_witness:
  "map isLoading (trace (handleSendMessage parse_frame (sample_env Pending) sample_state)) =
      [False, False, False, True, True, True, True, True, False]
   \<and> error (last (trace (handleSendMessage parse_frame (sample_env Pending) sample_state))) =
      Some TIMEOUT_MESSAGE"
proof -
  have "unsettled_at_deadline (fetched (sample_env Pending))"
    by (simp add: sample_env_simps)
  note T = timeout_before_headers [OF sample_accepted this, of parse_frame]
  from T [THEN conjunct1] have
    "error (last (trace (handleSendMessage parse_frame (sample_env Pending) sample_state))) =
      Some TIMEOUT_MESSAGE"
    by simp
  with T [THEN conjunct2] show ?thesis by simp
qed

text \<open>
  As stated the claim fails: \<open>clearTimeout\<close> runs as soon as the headers have arrived, so
  a response whose headers arrive after one second and whose body is complete only after
  120 seconds is not cancelled, and the send succeeds.
\<close>

theorem slow_body_not_cancelled:
  "completed_at (content_X_response 120000) = 120000 \<and>
   last (trace (handleSendMessage parse_frame
      (sample_env (Resolves 1000 (content_X_response 120000)))
      sample_state)) =
     \<lparr>messages = sample_history @
        [\<lparr>role = User, content = JStr (js '' ping ''), msg_id = js ''m3''\<rparr>,
         \<lparr>role = Assistant, content = JStr (js ''X''), msg_id = js ''m4''\<rparr>],
       input = [], isLoading = False, error = None\<rparr>"
  using structured_trace [where t = 1000 and err = JUndefined and c = "JStr (js ''X'')"
      and parse = parse_frame,
      OF sample_accepted sample_env_simps(1) _
      content_X_simps(1,2) includes_json content_X_simps(3) _ _ _ sample_fresh]
  by (simp add: in_flight_sample js_def content_X_simps own_property_def)

section \<open>Streamed responses\<close>

text \<open>
  Claim C2, amended. For a streamed response of well-formed text frames in which every
  read chunk holds whole frames, each followed by the blank line, the lines of the
  chunks are the frames. Every frame queues one update of the placeholder, and each
  update writes the accumulated content as it is when React runs it: the content of the
  update of frame number \<open>i\<close> (from 0) is the concatenation of the first \<open>k\<close> frame values
  for some \<open>k\<close> beyond \<open>i\<close>, and the content ends as the concatenation of all of them. If
  React runs every update before the next frame is taken, the contents are the
  concatenations of the first one, two, ... frame values.
\<close>

theorem whole_frames_accumulate:
  assumes "js_trim (input st) \<noteq> []" and "\<not> isLoading st"
    and "assistantId e \<notin> set (ids_of st)" and "assistantId e \<noteq> userId e"
    and "fetched e = Resolves t r" and "t < 60000"
    and "ok r" and "contentType r = Some ct"
    and "\<not> js_includes ct (js ''application/json'')"
    and "js_includes ct (js ''text/event-stream'')"
    and "body r = Some \<lparr>chunks = map chunk_of fss, failure = None\<rparr>"
    and "list_all (list_all (text_frame parse)) fss"
  shows "concat (map lines_of (map chunk_of fss)) = map frame_text (concat fss)
    \<and> trace (handleSendMessage parse e st) =
        prologue e st
          @ map (\<lambda>w. in_flight e st (JStr w))
              (written (react_runs e) (map carried (concat fss)))
          @ [(in_flight e st (JStr (concat (map carried (concat fss)))))\<lparr>isLoading := False\<rparr>]
    \<and> length (written (react_runs e) (map carried (concat fss))) = length (concat fss)
    \<and> (\<forall>i<length (concat fss). \<exists>k. i < k \<and> k \<le> length (concat fss) \<and>
          written (react_runs e) (map carried (concat fss)) ! i =
            concat (take k (map carried (concat fss))))
    \<and> ((\<forall>n. react_runs e n) \<longrightarrow>
          written (react_runs e) (map carried (concat fss)) =
            running [] (map carried (concat fss)))"
proof -
  have "concat (map lines_of (map chunk_of fss)) = map frame_text (concat fss)"
    using assms(12) by (rule lines_of_chunks)
  moreover have "trace (handleSendMessage parse e st) =
        prologue e st
          @ map (\<lambda>w. in_flight e st (JStr w))
              (written (react_runs e) (map carried (concat fss)))
          @ [(in_flight e st (JStr (concat (map carried (concat fss)))))\<lparr>isLoading := False\<rparr>]"
    using completed_stream_trace [OF assms(1-11), of parse] texts_of_chunks [OF assms(12)]
    by simp
  moreover have "length (written (react_runs e) (map carried (concat fss))) = length (concat fss)"
    using written_prefixes [of "react_runs e" "map carried (concat fss)"] by simp
  moreover have "\<forall>i<length (concat fss). \<exists>k. i < k \<and> k \<le> length (concat fss) \<and>
          written (react_runs e) (map carried (concat fss)) ! i =
            concat (take k (map carried (concat fss)))"
    using written_prefixes [of "react_runs e" "map carried (concat fss)"] by simp
  moreover have "(\<forall>n. react_runs e n) \<longrightarrow>
          written (react_runs e) (map carried (concat fss)) =
            running [] (map carried (concat fss))"
    using written_always by blast
  ultimately show ?thesis by blast
qed

text \<open>
  Two runs. In the first React runs the three updates of a chunk of three frames after
  the loop over its lines: all three write \<open>ABC\<close>. In the second every frame comes in a
  chunk of its own and is rendered before the next one is read.
\<close>

theorem whole_frames_accumulate_witness:
  \<open>trace (handleSendMessage parse_frame
      (batching_env (Resolves 1000
         (stream_response
            [js ''data: {"type":"text","value":"A"}\<newline>\<newline>data: {"type":"text","value":"B"}\<newline>\<newline>data: {"type":"text","value":"C"}\<newline>\<newline>''] 2000)))
      sample_state) =
   prologue (batching_env (Resolves 1000
         (stream_response
            [js ''data: {"type":"text","value":"A"}\<newline>\<newline>data: {"type":"text","value":"B"}\<newline>\<newline>data: {"type":"text","value":"C"}\<newline>\<newline>''] 2000)))
      sample_state @
     map (\<lambda>w. \<lparr>messages = sample_history @
        [\<lparr>role = User, content = JStr (js '' ping ''), msg_id = js ''m3''\<rparr>,
         \<lparr>role = Assistant, content = JStr (js w), msg_id = js ''m4''\<rparr>],
       input = [], isLoading = True, error = None\<rparr>) [''ABC'', ''ABC'', ''ABC''] @
     [\<lparr>messages = sample_history @
        [\<lparr>role = User, content = JStr (js '' ping ''), msg_id = js ''m3''\<rparr>,
         \<lparr>role = Assistant, content = JStr (js ''ABC''), msg_id = js ''m4''\<rparr>],
       input = [], isLoading = False, error = None\<rparr>]
   \<and> trace (handleSendMessage parse_frame
      (sample_env (Resolves 1000
         (stream_response
            [js ''data: {"type":"text","value":"He"}\<newline>\<newline>'',
             js ''data: {"type":"text","value":"llo"}\<newline>\<newline>''] 2000)))
      sample_state) =
   prologue (sample_env (Resolves 1000
         (stream_response
            [js ''data: {"type":"text","value":"He"}\<newline>\<newline>'',
             js ''data: {"type":"text","value":"llo"}\<newline>\<newline>''] 2000)))
      sample_state @
     map (\<lambda>w. \<lparr>messages = sample_history @
        [\<lparr>role = User, content = JStr (js '' ping ''), msg_id = js ''m3''\<rparr>,
         \<lparr>role = Assistant, content = JStr (js w), msg_id = js ''m4''\<rparr>],
       input = [], isLoading = True, error = None\<rparr>) [''He'', ''Hello''] @
     [\<lparr>messages = sample_history @
        [\<lparr>role = User, content = JStr (js '' ping ''), msg_id = js ''m3''\<rparr>,
         \<lparr>role = Assistant, content = JStr (js ''Hello''), msg_id = js ''m4''\<rparr>],
       input = [], isLoading = False, error = None\<rparr>]\<close>
proof -
  have frames3: \<open>list_all (list_all (text_frame parse_frame))
      [[Frame True [] (js ''{"type":"text","value":"A"}'') [] (js ''A''),
        Frame True [] (js ''{"type":"text","value":"B"}'') [] (js ''B''),
        Frame True [] (js ''{"type":"text","value":"C"}'') [] (js ''C'')]]\<close>
    using whole_frame by simp
  have body3: \<open>body (stream_response
            [js ''data: {"type":"text","value":"A"}\<newline>\<newline>data: {"type":"text","value":"B"}\<newline>\<newline>data: {"type":"text","value":"C"}\<newline>\<newline>''] 2000) =
      Some \<lparr>chunks = map chunk_of
        [[Frame True [] (js ''{"type":"text","value":"A"}'') [] (js ''A''),
          Frame True [] (js ''{"type":"text","value":"B"}'') [] (js ''B''),
          Frame True [] (js ''{"type":"text","value":"C"}'') [] (js ''C'')]], failure = None\<rparr>\<close>
    unfolding batched_chunk by (simp add: stream_response_simps)
  have frames2: \<open>list_all (list_all (text_frame parse_frame))
      [[Frame True [] (js ''{"type":"text","value":"He"}'') [] (js ''He'')],
       [Frame True [] (js ''{"type":"text","value":"llo"}'') [] (js ''llo'')]]\<close>
    using whole_frame by simp
  have body2: \<open>body (stream_response
            [js ''data: {"type":"text","value":"He"}\<newline>\<newline>'',
             js ''data: {"type":"text","value":"llo"}\<newline>\<newline>''] 2000) =
      Some \<lparr>chunks = map chunk_of
        [[Frame True [] (js ''{"type":"text","value":"He"}'') [] (js ''He'')],
         [Frame True [] (js ''{"type":"text","value":"llo"}'') [] (js ''llo'')]], failure = None\<rparr>\<close>
    by (simp add: stream_response_simps chunk_of_def frame_text_def js_def)
  have batched: \<open>trace (handleSendMessage parse_frame
      (batching_env (Resolves 1000
         (stream_response
            [js ''data: {"type":"text","value":"A"}\<newline>\<newline>data: {"type":"text","value":"B"}\<newline>\<newline>data: {"type":"text","value":"C"}\<newline>\<newline>''] 2000)))
      sample_state) =
   prologue (batching_env (Resolves 1000
         (stream_response
            [js ''data: {"type":"text","value":"A"}\<newline>\<newline>data: {"type":"text","value":"B"}\<newline>\<newline>data: {"type":"text","value":"C"}\<newline>\<newline>''] 2000)))
      sample_state @
     map (\<lambda>w. \<lparr>messages = sample_history @
        [\<lparr>role = User, content = JStr (js '' ping ''), msg_id = js ''m3''\<rparr>,
         \<lparr>role = Assistant, content = JStr (js w), msg_id = js ''m4''\<rparr>],
       input = [], isLoading = True, error = None\<rparr>) [''ABC'', ''ABC'', ''ABC''] @
     [\<lparr>messages = sample_history @
        [\<lparr>role = User, content = JStr (js '' ping ''), msg_id = js ''m3''\<rparr>,
         \<lparr>role = Assistant, content = JStr (js ''ABC''), msg_id = js ''m4''\<rparr>],
       input = [], isLoading = False, error = None\<rparr>]\<close>
    using whole_frames_accumulate [where t = 1000, OF sample_accepted batching_fresh
      batching_env_simps(1) _ stream_response_simps(1,2) includes_stream body3 frames3,
      THEN conjunct2, THEN conjunct1]
    by (simp add: in_flight_batching batching_env_simps(2) written_batched js_def)
  have immediate: \<open>trace (handleSendMessage parse_frame
      (sample_env (Resolves 1000
         (stream_response
            [js ''data: {"type":"text","value":"He"}\<newline>\<newline>'',
             js ''data: {"type":"text","value":"llo"}\<newline>\<newline>''] 2000)))
      sample_state) =
   prologue (sample_env (Resolves 1000
         (stream_response
            [js ''data: {"type":"text","value":"He"}\<newline>\<newline>'',
             js ''data: {"type":"text","value":"llo"}\<newline>\<newline>''] 2000)))
      sample_state @
     map (\<lambda>w. \<lparr>messages = sample_history @
        [\<lparr>role = User, content = JStr (js '' ping ''), msg_id = js ''m3''\<rparr>,
         \<lparr>role = Assistant, content = JStr (js w), msg_id = js ''m4''\<rparr>],
       input = [], isLoading = True, error = None\<rparr>) [''He'', ''Hello''] @
     [\<lparr>messages = sample_history @
        [\<lparr>role = User, content = JStr (js '' ping ''), msg_id = js ''m3''\<rparr>,
         \<lparr>role = Assistant, content = JStr (js ''Hello''), msg_id = js ''m4''\<rparr>],
       input = [], isLoading = False, error = None\<rparr>]\<close>
    using whole_frames_accumulate [where t = 1000, OF sample_accepted sample_fresh
      sample_env_simps(1) _ stream_response_simps(1,2) includes_stream body2 frames2,
      THEN conjunct2, THEN conjunct1]
    by (simp add: in_flight_sample react_runs_sample written_immediately js_def)
  show ?thesis using batched immediate by (rule conjI)
qed

text \<open>
  As stated the claim fails in two ways. The lines are split chunk by chunk and nothing
  is carried over, so a frame cut by a chunk boundary gives two texts that do not parse,
  and its value is lost, also when React runs every update at once. And the updates
  read the accumulated content when React runs them, so for a chunk of the three frames
  \<open>A\<close>, \<open>B\<close>, \<open>C\<close> whose updates React runs after the loop over the lines the content is
  \<open>ABC\<close> from the first update on: no state of the run has the content \<open>A\<close> or \<open>AB\<close>.
\<close>

theorem cut_frame_is_lost:
  \<open>concat [js ''data: {"type":"te'', js ''xt","value":"He"}\<newline>\<newline>''] =
      chunk_of [Frame True [] (js ''{"type":"text","value":"He"}'') [] (js ''He'')] \<and>
   text_frame parse_frame (Frame True [] (js ''{"type":"text","value":"He"}'') [] (js ''He'')) \<and>
   last (trace (handleSendMessage parse_frame
      (sample_env (Resolves 1000
         (stream_response [js ''data: {"type":"te'', js ''xt","value":"He"}\<newline>\<newline>''] 2000)))
      sample_state)) =
     \<lparr>messages = sample_history @
        [\<lparr>role = User, content = JStr (js '' ping ''), msg_id = js ''m3''\<rparr>,
         \<lparr>role = Assistant, content = JStr [], msg_id = js ''m4''\<rparr>],
       input = [], isLoading = False, error = None\<rparr> \<and>
   map (\<lambda>s. content (last (messages s))) (drop 6 (trace (handleSendMessage parse_frame
      (batching_env (Resolves 1000
         (stream_response
            [js ''data: {"type":"text","value":"A"}\<newline>\<newline>data: {"type":"text","value":"B"}\<newline>\<newline>data: {"type":"text","value":"C"}\<newline>\<newline>''] 2000)))
      sample_state))) =
     [JStr (js ''ABC''), JStr (js ''ABC''), JStr (js ''ABC''), JStr (js ''ABC'')]\<close>
proof -
  have \<open>concat [js ''data: {"type":"te'', js ''xt","value":"He"}\<newline>\<newline>''] =
      chunk_of [Frame True [] (js ''{"type":"text","value":"He"}'') [] (js ''He'')]\<close>
    by (simp add: chunk_of_def frame_text_def js_def)
  moreover have \<open>last (trace (handleSendMessage parse_frame
      (sample_env (Resolves 1000
         (stream_response [js ''data: {"type":"te'', js ''xt","value":"He"}\<newline>\<newline>''] 2000)))
      sample_state)) =
     \<lparr>messages = sample_history @
        [\<lparr>role = User, content = JStr (js '' ping ''), msg_id = js ''m3''\<rparr>,
         \<lparr>role = Assistant, content = JStr [], msg_id = js ''m4''\<rparr>],
       input = [], isLoading = False, error = None\<rparr>\<close>
    using completed_stream_trace [where t = 1000 and parse = parse_frame,
      OF sample_accepted sample_fresh sample_env_simps(1) _
      stream_response_simps(1,2) includes_stream stream_response_simps(3)]
    by (simp add: cut_frame_texts in_flight_sample written_Nil)
  moreover have \<open>map (\<lambda>s. content (last (messages s))) (drop 6 (trace (handleSendMessage parse_frame
      (batching_env (Resolves 1000
         (stream_response
            [js ''data: {"type":"text","value":"A"}\<newline>\<newline>data: {"type":"text","value":"B"}\<newline>\<newline>data: {"type":"text","value":"C"}\<newline>\<newline>''] 2000)))
      sample_state))) =
     [JStr (js ''ABC''), JStr (js ''ABC''), JStr (js ''ABC''), JStr (js ''ABC'')]\<close>
  proof -
    have six: "length (prologue e st) = 6" for e st by (simp add: prologue_def)
    show ?thesis
      using completed_stream_trace [where t = 1000 and parse = parse_frame,
        OF sample_accepted batching_fresh batching_env_simps(1) _
        stream_response_simps(1,2) includes_stream stream_response_simps(3)]
      by (simp add: batched_texts six in_flight_batching batching_env_simps(2) written_batched)
        (simp add: js_def)
  qed
  ultimately show ?thesis using whole_frame(1) by simp
qed

text \<open>
  Claim C1. A frame of type \<open>error\<close> is meant to fail the send. The \<open>throw\<close> stands inside
  the \<open>try\<close> of the loop over the lines, whose \<open>catch\<close> logs it and goes on: for a
  stream that holds the one frame \<^verbatim>\<open>{"type":"error","value":"boom"}\<close> the run adds a
  single state to its first six, the one of the \<open>finally\<close> block, in which no error is set
  and the placeholder is still empty.
\<close>

theorem error_frame_swallowed:
  \<open>trace (handleSendMessage parse_frame
      (sample_env (Resolves 1000
         (stream_response [js ''data: {"type":"error","value":"boom"}\<newline>\<newline>''] 2000)))
      sample_state) =
   prologue (sample_env (Resolves 1000
         (stream_response [js ''data: {"type":"error","value":"boom"}\<newline>\<newline>''] 2000)))
      sample_state @
     [\<lparr>messages = sample_history @
        [\<lparr>role = User, content = JStr (js '' ping ''), msg_id = js ''m3''\<rparr>,
         \<lparr>role = Assistant, content = JStr [], msg_id = js ''m4''\<rparr>],
       input = [], isLoading = False, error = None\<rparr>]\<close>
  using completed_stream_trace [where t = 1000 and parse = parse_frame,
      OF sample_accepted sample_fresh sample_env_simps(1) _
      stream_response_simps(1,2) includes_stream stream_response_simps(3)]
  by (simp add: error_frame_texts in_flight_sample written_Nil)

section \<open>Which message an update changes\<close>



section \<open>The proxy absorbs upstream failures\<close>




section \<open>Validation and the credential check\<close>




end
